theory Spec2Isabelle
  imports
    Main
    "HOL-Library.Word"
    "HOL-Library.Char_ord"
    "HOL-Library.List_Lexorder"
begin

section \<open>The expectation record (baseExpectation)\<close>

text \<open>
  Go's \<^verbatim>\<open>uint\<close> is taken at its 64-bit width: \<open>+\<close> and \<open>-\<close> on \<open>uint\<close> wrap
  around, \<open>unat\<close> reads the value.
\<close>

type_synonym uint = "64 word"

text \<open>
  The struct \<^verbatim>\<open>baseExpectation\<close>. The collaborators the record only stores (file
  system, method descriptor, header and payload matcher) are type parameters. The
  \<^verbatim>\<open>locker\<close> field has no counterpart: every method below is one atomic step, which is
  what \<^verbatim>\<open>lock()\<close> / \<^verbatim>\<open>defer unlock()\<close> give it. The \<^verbatim>\<open>delay\<close> field is not read by
  any method of the record.
\<close>

record ('fs, 'svc, 'hm, 'pm) baseExpectation =
  fs :: 'fs
  serviceDesc :: 'svc
  requestHeader :: 'hm
  requestPayload :: 'pm
  statusCode :: "32 word"
  statusMessage :: string
  fulfilledTimes :: uint
  repeatTimes :: uint

definition withFs ::
  "'fs \<Rightarrow> ('fs, 'svc, 'hm, 'pm) baseExpectation \<Rightarrow> ('fs, 'svc, 'hm, 'pm) baseExpectation" where
  "withFs f e = e\<lparr>fs := f\<rparr>"

definition withTimes ::
  "uint \<Rightarrow> ('fs, 'svc, 'hm, 'pm) baseExpectation \<Rightarrow> ('fs, 'svc, 'hm, 'pm) baseExpectation" where
  "withTimes t e = e\<lparr>repeatTimes := t\<rparr>"

definition ServiceMethod :: "('fs, 'svc, 'hm, 'pm) baseExpectation \<Rightarrow> 'svc" where
  "ServiceMethod e = serviceDesc e"

definition HeaderMatcher :: "('fs, 'svc, 'hm, 'pm) baseExpectation \<Rightarrow> 'hm" where
  "HeaderMatcher e = requestHeader e"

definition PayloadMatcher :: "('fs, 'svc, 'hm, 'pm) baseExpectation \<Rightarrow> 'pm" where
  "PayloadMatcher e = requestPayload e"

definition RemainTimes :: "('fs, 'svc, 'hm, 'pm) baseExpectation \<Rightarrow> uint" where
  "RemainTimes e = repeatTimes e"

definition Fulfilled ::
  "('fs, 'svc, 'hm, 'pm) baseExpectation \<Rightarrow> ('fs, 'svc, 'hm, 'pm) baseExpectation" where
  "Fulfilled e =
     (let e1 = (if repeatTimes e > 0 then e\<lparr>repeatTimes := repeatTimes e - 1\<rparr> else e)
      in e1\<lparr>fulfilledTimes := fulfilledTimes e1 + 1\<rparr>)"

definition FulfilledTimes :: "('fs, 'svc, 'hm, 'pm) baseExpectation \<Rightarrow> uint" where
  "FulfilledTimes e = fulfilledTimes e"

text \<open>
  The calls a driver can make on a record after it has been built. The accessors return
  a value and leave the record as it is; \<^verbatim>\<open>withFs\<close> replaces the file system only.
\<close>

datatype 'fs call =
    CallFulfilled
  | CallRemainTimes
  | CallFulfilledTimes
  | CallHeaderMatcher
  | CallPayloadMatcher
  | CallServiceMethod
  | CallWithFs 'fs

fun step ::
  "('fs, 'svc, 'hm, 'pm) baseExpectation \<Rightarrow> 'fs call \<Rightarrow> ('fs, 'svc, 'hm, 'pm) baseExpectation" where
  "step e CallFulfilled = Fulfilled e"
| "step e (CallWithFs f) = withFs f e"
| "step e CallRemainTimes = e"
| "step e CallFulfilledTimes = e"
| "step e CallHeaderMatcher = e"
| "step e CallPayloadMatcher = e"
| "step e CallServiceMethod = e"

definition run ::
  "('fs, 'svc, 'hm, 'pm) baseExpectation \<Rightarrow> 'fs call list \<Rightarrow> ('fs, 'svc, 'hm, 'pm) baseExpectation" where
  "run e cs = foldl step e cs"

text \<open>The number of \<^verbatim>\<open>Fulfilled()\<close> calls in a sequence of calls.\<close>

definition fulfilledCalls :: "'fs call list \<Rightarrow> nat" where
  "fulfilledCalls cs = length (filter (\<lambda>c. c = CallFulfilled) cs)"

section \<open>The diagnostic formatter (package format)\<close>

subsection \<open>Values of type \<^verbatim>\<open>interface{}\<close>\<close>

text \<open>
  A Go panic, with the value it carries.
\<close>

datatype panic = Panic string

text \<open>
  The dynamic values the formatter's type switches tell apart. The matcher types live in
  other packages; a matcher is represented by what the formatter asks of it: the
  description its \<^verbatim>\<open>Expected()\<close> returns, the matcher its \<^verbatim>\<open>Matcher()\<close> returns, and
  the name \<^verbatim>\<open>%T\<close> prints for its type.
  \<^item> \<open>Nil\<close>: the nil interface (\<^verbatim>\<open>v == nil\<close>);
  \<^item> \<open>Bytes b\<close>: a \<^verbatim>\<open>[]byte\<close>, \<open>None\<close> the nil slice;
  \<^item> \<open>Str s\<close>: a \<^verbatim>\<open>string\<close>;
  \<^item> \<open>ExactMatcher e\<close>: a \<^verbatim>\<open>matcher.ExactMatcher\<close> whose \<^verbatim>\<open>Expected()\<close> is \<open>e\<close>;
  \<^item> \<open>FnMatcher e\<close>: a \<^verbatim>\<open>grpcMatcher.FnMatcher\<close> whose \<^verbatim>\<open>Expected()\<close> is \<open>e\<close>;
  \<^item> \<open>Callback m\<close>: a \<^verbatim>\<open>matcher.Callback\<close> (a function that is not nil) whose
    \<^verbatim>\<open>Matcher()\<close> returns \<open>m\<close>;
  \<^item> \<open>PayloadMatcher p\<close>: a \<^verbatim>\<open>*grpcMatcher.PayloadMatcher\<close>, \<open>None\<close> the nil pointer,
    \<open>Some m\<close> one whose \<^verbatim>\<open>Matcher()\<close> returns \<open>m\<close>;
  \<^item> \<open>OtherMatcher t e\<close>: any other \<^verbatim>\<open>matcher.Matcher\<close>, of type name \<open>t\<close>, whose
    \<^verbatim>\<open>Expected()\<close> is \<open>e\<close>;
  \<^item> \<open>OtherNil t\<close>: a nil pointer, map, slice, channel or function of another type \<open>t\<close>;
  \<^item> \<open>Other t d\<close>: any other non-nil value, of type name \<open>t\<close>; \<open>d\<close> is what
    \<^verbatim>\<open>value.Marshal\<close> returns for it, \<open>Inl\<close> its error or \<open>Inr\<close> its data.
\<close>

datatype val =
    Nil
  | Bytes "string option"
  | Str string
  | ExactMatcher string
  | FnMatcher string
  | Callback val
  | PayloadMatcher "val option"
  | OtherMatcher string string
  | OtherNil string
  | Other string "string + string"

text \<open>
  Modelled from the spec: \<^verbatim>\<open>grpcReflect.IsNil\<close>, of the repository's package
  \<^verbatim>\<open>reflect\<close>, which \<^verbatim>\<open>format.go\<close> imports. The spec calls it deep-nil inspection: a
  value is a nil-equivalent when it is the nil interface or a typed nil (a nil pointer,
  slice, map, channel or function behind the interface).
\<close>

fun IsNil :: "val \<Rightarrow> bool" where
  "IsNil Nil = True"
| "IsNil (Bytes None) = True"
| "IsNil (PayloadMatcher None) = True"
| "IsNil (OtherNil t) = True"
| "IsNil v = False"

subsection \<open>formatValue, formatValueInline, formatType\<close>

text \<open>
  The cases follow the order of the type switch. \<^verbatim>\<open>must.NotFail(err)\<close> panics with the
  error of \<^verbatim>\<open>value.Marshal\<close>.
\<close>

fun formatValue :: "val \<Rightarrow> panic + string" where
  "formatValue Nil = Inr ''<nil>''"
| "formatValue (Bytes None) = Inr []"
| "formatValue (Bytes (Some m)) = Inr m"
| "formatValue (Str m) = Inr m"
| "formatValue (Callback m) = formatValue m"
| "formatValue (FnMatcher e) = (if e \<noteq> [] then Inr e else Inr ''matches custom expectation'')"
| "formatValue (PayloadMatcher None) = Inr []"
| "formatValue (PayloadMatcher (Some m)) = formatValue m"
| "formatValue (ExactMatcher e) = Inr e"
| "formatValue (OtherMatcher t e) = Inr e"
| "formatValue (OtherNil t) = Inr []"
| "formatValue (Other t (Inl err)) = Inl (Panic err)"
| "formatValue (Other t (Inr data)) = Inr data"

text \<open>
  The first argument stands for the verb \<^verbatim>\<open>%q\<close> of \<^verbatim>\<open>fmt.Sprintf\<close> (Go's quoting of
  a string), which belongs to the standard library.
\<close>

fun formatValueInline :: "(string \<Rightarrow> string) \<Rightarrow> val \<Rightarrow> panic + string" where
  "formatValueInline q Nil = Inr ''<nil>''"
| "formatValueInline q (ExactMatcher e) = formatValue (ExactMatcher e)"
| "formatValueInline q (FnMatcher e) = formatValue (FnMatcher e)"
| "formatValueInline q (Bytes b) = formatValue (Bytes b)"
| "formatValueInline q (Str m) = formatValue (Str m)"
| "formatValueInline q (Callback m) = formatValueInline q m"
| "formatValueInline q (PayloadMatcher None) = Inr []"
| "formatValueInline q (PayloadMatcher (Some m)) = formatValueInline q m"
| "formatValueInline q (OtherMatcher t e) = Inr (t @ ''('' @ q e @ '')'')"
| "formatValueInline q (OtherNil t) = Inr []"
| "formatValueInline q (Other t d) = Inl (Panic ''unknown value type'')"

text \<open>
  \<^verbatim>\<open>formatType\<close> returns the empty string for a nil-equivalent before it looks at the
  type: the first four equations are that test.
\<close>

fun formatType :: "val \<Rightarrow> string" where
  "formatType Nil = []"
| "formatType (Bytes None) = []"
| "formatType (PayloadMatcher None) = []"
| "formatType (OtherNil t) = []"
| "formatType (ExactMatcher e) = []"
| "formatType (FnMatcher e) = []"
| "formatType (Bytes (Some b)) = []"
| "formatType (Str m) = []"
| "formatType (Callback m) = formatType m"
| "formatType (PayloadMatcher (Some m)) = formatType m"
| "formatType (OtherMatcher t e) = '' using '' @ t"
| "formatType (Other t d) = '' using '' @ t"

subsection \<open>Printing integers: the verb \<^verbatim>\<open>%d\<close>\<close>

definition digitChar :: "nat \<Rightarrow> char" where
  "digitChar n = ''0123456789'' ! (n mod 10)"

fun digits :: "nat \<Rightarrow> string" where
  "digits n = (if n < 10 then [digitChar n] else digits (n div 10) @ [digitChar n])"

definition fmt_d :: "int \<Rightarrow> string" where
  "fmt_d i = (if i < 0 then CHR ''-'' # digits (nat (- i)) else digits (nat i))"

subsection \<open>formatRequestTimes\<close>

definition indent :: string where
  "indent = ''    ''"

definition newline :: char where
  "newline = CHR 0x0A"

text \<open>
  What the formatter reads of a \<^verbatim>\<open>service.Method\<close>: the field \<^verbatim>\<open>MethodType\<close> and the
  string its method \<^verbatim>\<open>FullName()\<close> returns.
\<close>

record service_Method =
  MethodType :: string
  FullName :: string

text \<open>
  A Go map \<^verbatim>\<open>map[string]interface{}\<close> is a list of entries with distinct keys, in the
  order in which \<^verbatim>\<open>range\<close> happens to visit them; the nil map is the empty list. A
  lookup of a missing key yields the zero value, the nil interface.
\<close>

type_synonym header = "(string \<times> val) list"

definition lookup :: "header \<Rightarrow> string \<Rightarrow> val" where
  "lookup header key = (case map_of header key of None \<Rightarrow> Nil | Some v \<Rightarrow> v)"

text \<open>
  The writer is the text written so far; the source ignores what \<^verbatim>\<open>Fprintf\<close> returns.
  A panic leaves what was written before it and ends the call: the result is the text
  and the panic, if any. \<^verbatim>\<open>totalCalls\<close> and \<^verbatim>\<open>remainingCalls\<close> are Go \<^verbatim>\<open>int\<close>s that
  are compared and printed only, never computed with: they are integers here.
\<close>

type_synonym written = "string \<times> panic option"

text \<open>The loop over the sorted keys; \<^verbatim>\<open>sort.Strings\<close> has put them in byte order.\<close>

fun headerEntries :: "(string \<Rightarrow> string) \<Rightarrow> header \<Rightarrow> string list \<Rightarrow> string \<Rightarrow> written" where
  "headerEntries q header [] w = (w, None)"
| "headerEntries q header (key # keys) w =
     (case formatValueInline q (lookup header key) of
        Inl p \<Rightarrow> (w, Some p)
      | Inr s \<Rightarrow> headerEntries q header keys (w @ indent @ indent @ key @ '': '' @ s @ [newline]))"

definition callTimes :: "int \<Rightarrow> int \<Rightarrow> string" where
  "callTimes totalCalls remainingCalls =
     '' (called: '' @ fmt_d totalCalls @ '' time(s), remaining: '' @ fmt_d remainingCalls @ '' time(s))''"

definition formatRequestTimes ::
  "(string \<Rightarrow> string) \<Rightarrow> service_Method \<Rightarrow> header \<Rightarrow> val \<Rightarrow> int \<Rightarrow> int \<Rightarrow> written" where
  "formatRequestTimes q svc header payload totalCalls remainingCalls =
     (let w1 = MethodType svc @ '' '' @ FullName svc;
          w2 = (if remainingCalls > 0 \<and> (totalCalls \<noteq> 0 \<or> remainingCalls \<noteq> 1)
                then w1 @ callTimes totalCalls remainingCalls else w1);
          w3 = w2 @ [newline];
          r = (if length header > 0
               then headerEntries q header (sort (map fst header))
                      (w3 @ indent @ ''with header:'' @ [newline])
               else (w3, None))
      in case r of
           (w4, Some p) \<Rightarrow> (w4, Some p)
         | (w4, None) \<Rightarrow>
             if \<not> IsNil payload then
               (case formatValue payload of
                  Inl p \<Rightarrow> (w4, Some p)
                | Inr bodyStr \<Rightarrow>
                    if bodyStr \<noteq> [] then
                      (w4 @ indent @ ''with payload'' @ formatType payload @ [newline]
                          @ indent @ indent @ bodyStr @ [newline], None)
                    else (w4, None))
             else (w4, None))"

text \<open>
  \<^verbatim>\<open>ExpectedRequestTimes\<close> and \<^verbatim>\<open>Request\<close> copy the header into a fresh map of
  \<^verbatim>\<open>interface{}\<close> values (the nil map stays nil) and call \<^verbatim>\<open>formatRequestTimes\<close>.
  \<^verbatim>\<open>Request\<close> receives the header values as strings.
\<close>

definition ExpectedRequestTimes ::
  "(string \<Rightarrow> string) \<Rightarrow> service_Method \<Rightarrow> header \<Rightarrow> val \<Rightarrow> int \<Rightarrow> int \<Rightarrow> written" where
  "ExpectedRequestTimes q svc header payload totalCalls remainingCalls =
     formatRequestTimes q svc (map (\<lambda>(k, v). (k, v)) header) payload totalCalls remainingCalls"

definition ExpectedRequest :: "(string \<Rightarrow> string) \<Rightarrow> service_Method \<Rightarrow> header \<Rightarrow> val \<Rightarrow> written" where
  "ExpectedRequest q svc header payload = ExpectedRequestTimes q svc header payload 0 0"

definition Request ::
  "(string \<Rightarrow> string) \<Rightarrow> service_Method \<Rightarrow> (string \<times> string) list \<Rightarrow> val \<Rightarrow> written" where
  "Request q svc header payload =
     formatRequestTimes q svc (map (\<lambda>(k, v). (k, Str v)) header) payload 0 0"

text \<open>The first line of a text: what stands before its first line feed.\<close>

definition firstLine :: "string \<Rightarrow> string" where
  "firstLine w = takeWhile (\<lambda>c. c \<noteq> newline) w"

text \<open>
  The values a \<^verbatim>\<open>matcher.Matcher\<close> can hold, which is what the values of a
  \<^verbatim>\<open>HeaderMatcher\<close> and the payload of \<^verbatim>\<open>ExpectedRequestTimes\<close> are: nil, or one of
  the matchers, a callback or a payload matcher leading to such a value.
\<close>

fun isMatcher :: "val \<Rightarrow> bool" where
  "isMatcher Nil = True"
| "isMatcher (ExactMatcher e) = True"
| "isMatcher (FnMatcher e) = True"
| "isMatcher (Callback m) = isMatcher m"
| "isMatcher (PayloadMatcher None) = True"
| "isMatcher (PayloadMatcher (Some m)) = isMatcher m"
| "isMatcher (OtherMatcher t e) = True"
| "isMatcher v = False"

text \<open>
  Two names for stating what the header block holds: the inline text of a header value
  (none when formatting it panics) and the line written for a key.
\<close>

definition inlineText :: "(string \<Rightarrow> string) \<Rightarrow> val \<Rightarrow> string option" where
  "inlineText q v = (case formatValueInline q v of Inl p \<Rightarrow> None | Inr s \<Rightarrow> Some s)"

definition headerLine :: "(string \<Rightarrow> string) \<Rightarrow> header \<Rightarrow> string \<Rightarrow> string" where
  "headerLine q header key =
     indent @ indent @ key @ '': '' @ the (inlineText q (lookup header key)) @ [newline]"

section \<open>Generic invocation (package grpcmock)\<close>

subsection \<open>Errors\<close>

text \<open>
  The error values the invocation helpers meet: the sentinels \<^verbatim>\<open>io.EOF\<close> and
  \<^verbatim>\<open>ErrMissingMethod\<close>, an error known by its message (\<^verbatim>\<open>errors.New\<close>, or one a
  collaborator returns), \<^verbatim>\<open>fmt.Errorf\<close> with a text and the verb \<^verbatim>\<open>%w\<close> around an
  error, and the \<^verbatim>\<open>*url.Error\<close> of \<^verbatim>\<open>url.Parse\<close> (operation, URL, cause).
\<close>

datatype error =
    EOF
  | ErrMissingMethod
  | New string
  | Errorf_w string error
  | URLError string string error

text \<open>\<^verbatim>\<open>errors.Is\<close>: the error or one it wraps is the target.\<close>

fun errors_Is :: "error \<Rightarrow> error \<Rightarrow> bool" where
  "errors_Is (Errorf_w text err) target =
     (Errorf_w text err = target \<or> errors_Is err target)"
| "errors_Is (URLError op url err) target =
     (URLError op url err = target \<or> errors_Is err target)"
| "errors_Is err target = (err = target)"

subsection \<open>parseMethod\<close>

text \<open>
  What \<^verbatim>\<open>parseMethod\<close> reads of a \<^verbatim>\<open>url.URL\<close>. \<open>User\<close> is the user information as
  the URL writes it, if there is one.
\<close>

record URL =
  Scheme :: string
  User :: "string option"
  Host :: string
  Path :: string

text \<open>\<^verbatim>\<open>strings.TrimLeft\<close>: the leading bytes that belong to the cutset are removed.\<close>

definition TrimLeft :: "string \<Rightarrow> string \<Rightarrow> string" where
  "TrimLeft s cutset = dropWhile (\<lambda>c. c \<in> set cutset) s"

text \<open>
  \<^verbatim>\<open>url.Parse\<close> and \<^verbatim>\<open>URL.String\<close> belong to Go's standard library; they are the
  first two arguments.
\<close>

definition parseMethod ::
  "(string \<Rightarrow> error + URL) \<Rightarrow> (URL \<Rightarrow> string) \<Rightarrow> string \<Rightarrow> error + string \<times> string" where
  "parseMethod url_Parse URL_String method =
     (case url_Parse method of
        Inl err \<Rightarrow> Inl err
      | Inr u \<Rightarrow>
          (let method' = ''/'' @ TrimLeft (Path u) ''/'' in
           if method' = ''/'' then Inl ErrMissingMethod
           else Inr (URL_String \<lparr>Scheme = Scheme u, User = User u, Host = Host u, Path = []\<rparr>,
                     method')))"

subsection \<open>The standard library on plain URLs\<close>

text \<open>
  A model of \<^verbatim>\<open>net/url\<close> for the URLs called plain here: ASCII only, without the
  bytes \<^verbatim>\<open>% # ? @ [ ]\<close> (no escapes, fragment, query, user information or IPv6
  literal), and not the URL \<^verbatim>\<open>*\<close>. On these, \<^verbatim>\<open>Parse\<close> goes through the steps below, in
  this order; nothing is claimed of the model on other URLs.
\<close>

definition plainURL :: "string \<Rightarrow> bool" where
  "plainURL s = (s \<noteq> ''*'' \<and> list_all (\<lambda>c. (of_char c :: nat) < 128 \<and> c \<notin> set ''%#?@[]'') s)"

definition inRange :: "char \<Rightarrow> char \<Rightarrow> char \<Rightarrow> bool" where
  "inRange lo hi c = (lo \<le> c \<and> c \<le> hi)"

definition isLetter :: "char \<Rightarrow> bool" where
  "isLetter c = (inRange (CHR ''a'') (CHR ''z'') c \<or> inRange (CHR ''A'') (CHR ''Z'') c)"

definition isDigit :: "char \<Rightarrow> bool" where
  "isDigit c = inRange (CHR ''0'') (CHR ''9'') c"

definition HasPrefix :: "string \<Rightarrow> string \<Rightarrow> bool" where
  "HasPrefix s p = (take (length p) s = p)"

definition stringContainsCTLByte :: "string \<Rightarrow> bool" where
  "stringContainsCTLByte s = list_ex (\<lambda>c. c < CHR '' '' \<or> c = CHR 0x7F) s"

text \<open>
  \<^verbatim>\<open>getScheme\<close>: the loop over the bytes of the URL; \<open>seen\<close> holds the bytes before
  the current one, so that \<open>seen = []\<close> is the test \<^verbatim>\<open>i == 0\<close>.
\<close>

fun getSchemeLoop :: "string \<Rightarrow> string \<Rightarrow> string \<Rightarrow> error + string \<times> string" where
  "getSchemeLoop rawURL seen [] = Inr ([], rawURL)"
| "getSchemeLoop rawURL seen (c # cs) =
     (if isLetter c then getSchemeLoop rawURL (seen @ [c]) cs
      else if isDigit c \<or> c = CHR ''+'' \<or> c = CHR ''-'' \<or> c = CHR ''.'' then
        (if seen = [] then Inr ([], rawURL) else getSchemeLoop rawURL (seen @ [c]) cs)
      else if c = CHR '':'' then
        (if seen = [] then Inl (New ''missing protocol scheme'') else Inr (seen, cs))
      else Inr ([], rawURL))"

definition getScheme :: "string \<Rightarrow> error + string \<times> string" where
  "getScheme rawURL = getSchemeLoop rawURL [] rawURL"

definition ToLower :: "string \<Rightarrow> string" where
  "ToLower s =
     map (\<lambda>c. if inRange (CHR ''A'') (CHR ''Z'') c then char_of (of_char c + (32 :: nat)) else c) s"

text \<open>
  \<^verbatim>\<open>validOptionalPort\<close>, and the host bytes that \<^verbatim>\<open>shouldEscape\<close> lets stand in a host:
  letters, digits, the sub-delimiters, \<^verbatim>\<open>: [ ] < > "\<close> and the marks \<^verbatim>\<open>- _ . ~\<close>.
\<close>

definition validOptionalPort :: "string \<Rightarrow> bool" where
  "validOptionalPort port =
     (case port of [] \<Rightarrow> True | c # ds \<Rightarrow> c = CHR '':'' \<and> list_all isDigit ds)"

definition hostByte :: "char \<Rightarrow> bool" where
  "hostByte c = (isLetter c \<or> isDigit c
     \<or> c \<in> set (''!$&()*+,;=:[]<>-_.~'' @ [CHR 0x27, CHR 0x22]))"

text \<open>
  \<^verbatim>\<open>parseHost\<close> for a host that does not start with \<^verbatim>\<open>[\<close>: what follows the last colon
  must be a port, and every byte must be one a host may hold.
\<close>

definition parseHost :: "string \<Rightarrow> error + string" where
  "parseHost host =
     (if CHR '':'' \<in> set host
         \<and> \<not> validOptionalPort (CHR '':'' # rev (takeWhile (\<lambda>c. c \<noteq> CHR '':'') (rev host)))
      then Inl (New ''invalid port after host'')
      else if list_all hostByte host then Inr host
      else Inl (New ''invalid character in host name''))"

text \<open>
  \<^verbatim>\<open>parse(rawURL, false)\<close>: control bytes, the scheme, a rootless rest after a scheme
  (an opaque URL, whose path is empty), the colon in the first segment of a relative
  path, the authority between \<^verbatim>\<open>//\<close> and the next slash, the path.
\<close>

definition url_parse :: "string \<Rightarrow> error + URL" where
  "url_parse rawURL =
     (if stringContainsCTLByte rawURL then Inl (New ''net/url: invalid control character in URL'')
      else case getScheme rawURL of
        Inl err \<Rightarrow> Inl err
      | Inr (scheme, rest) \<Rightarrow>
          if \<not> HasPrefix rest ''/'' \<and> scheme \<noteq> [] then
            Inr \<lparr>Scheme = ToLower scheme, User = None, Host = [], Path = []\<rparr>
          else if \<not> HasPrefix rest ''/''
                  \<and> CHR '':'' \<in> set (takeWhile (\<lambda>c. c \<noteq> CHR ''/'') rest) then
            Inl (New ''first path segment in URL cannot contain colon'')
          else if (scheme \<noteq> [] \<or> \<not> HasPrefix rest ''///'') \<and> HasPrefix rest ''//'' then
            (case parseHost (takeWhile (\<lambda>c. c \<noteq> CHR ''/'') (drop 2 rest)) of
               Inl err \<Rightarrow> Inl err
             | Inr host \<Rightarrow>
                 Inr \<lparr>Scheme = ToLower scheme, User = None, Host = host,
                      Path = dropWhile (\<lambda>c. c \<noteq> CHR ''/'') (drop 2 rest)\<rparr>)
          else Inr \<lparr>Scheme = ToLower scheme, User = None, Host = [], Path = rest\<rparr>)"

definition url_Parse :: "string \<Rightarrow> error + URL" where
  "url_Parse rawURL =
     (case url_parse rawURL of
        Inl err \<Rightarrow> Inl (URLError ''parse'' rawURL err)
      | Inr u \<Rightarrow> Inr u)"

text \<open>
  \<^verbatim>\<open>URL.String\<close> for a URL without opaque part, path, query and fragment, as
  \<^verbatim>\<open>parseMethod\<close> builds it: the scheme and a colon, then \<^verbatim>\<open>//\<close>, the user information
  and the host when there is a host or user information.
\<close>

definition URL_String :: "URL \<Rightarrow> string" where
  "URL_String u =
     (if Scheme u \<noteq> [] then Scheme u @ '':'' else [])
     @ (if Scheme u \<noteq> [] \<or> Host u \<noteq> [] \<or> User u \<noteq> None then
          (if Host u \<noteq> [] \<or> Path u \<noteq> [] \<or> User u \<noteq> None then ''//'' else [])
          @ (case User u of None \<Rightarrow> [] | Some ui \<Rightarrow> ui @ ''@'')
          @ Host u
        else [])
     @ Path u"

subsection \<open>RecvAll\<close>

text \<open>
  What \<^verbatim>\<open>reflect\<close> tells of a Go type: a pointer type, a slice type, or a type of any
  other kind, known by its name.
\<close>

datatype ty = TPtr ty | TSlice ty | TBase string

text \<open>The verb \<^verbatim>\<open>%T\<close> on a value of the type.\<close>

fun typeName :: "ty \<Rightarrow> string" where
  "typeName (TPtr t) = ''*'' @ typeName t"
| "typeName (TSlice t) = ''[]'' @ typeName t"
| "typeName (TBase name) = name"

text \<open>
  Memory is a list of cells, an address is an index into it, and an allocation adds a
  cell at the end. A value is a pointer (nil, or the address of a cell), a slice with its
  elements, a message as a stream has decoded it, or the zero value of a type of another
  kind.
\<close>

type_synonym addr = nat

datatype 'm gval =
    Pointer "addr option"
  | SliceOf "'m gval list"
  | Message 'm
  | ZeroValue

type_synonym 'm heap = "'m gval list"

fun zeroOf :: "ty \<Rightarrow> 'm gval" where
  "zeroOf (TPtr t) = Pointer None"
| "zeroOf (TSlice t) = SliceOf []"
| "zeroOf (TBase name) = ZeroValue"

text \<open>\<^verbatim>\<open>reflect.New(t)\<close>: a pointer to a new cell that holds the zero value of \<open>t\<close>.\<close>

definition reflect_New :: "ty \<Rightarrow> 'm heap \<Rightarrow> addr \<times> 'm heap" where
  "reflect_New t h = (length h, h @ [zeroOf t])"

text \<open>
  An \<^verbatim>\<open>interface{}\<close> argument: the nil interface, or a value with its dynamic type.
\<close>

datatype 'm iface = NilInterface | Iface ty "'m gval"

text \<open>
  A \<^verbatim>\<open>grpc.ClientStream\<close> is known by what its successive calls of \<^verbatim>\<open>RecvMsg\<close> do: the
  call number \<open>n\<close> either stores a message into the value it is given and returns nil,
  or returns an error. The position in the stream is part of the state.
\<close>

datatype 'm recv = Received 'm | Failed error

type_synonym 'm stream = "nat \<Rightarrow> 'm recv"

fun newMessageValue :: "ty \<Rightarrow> 'm heap \<Rightarrow> addr \<times> 'm heap" where
  "newMessageValue (TPtr t) h = newMessageValue t h"
| "newMessageValue t h = reflect_New t h"

fun newSliceMessageValue :: "ty \<Rightarrow> 'm gval \<Rightarrow> 'm heap \<Rightarrow> 'm gval \<times> 'm heap" where
  "newSliceMessageValue (TPtr t) v h =
     (case reflect_New t h of
        (result, h1) \<Rightarrow>
          (case newSliceMessageValue t v h1 of
             (inner, h2) \<Rightarrow> (Pointer (Some result), h2[result := inner])))"
| "newSliceMessageValue t v h = (v, h)"

text \<open>
  \<^verbatim>\<open>appendMessage\<close>: the slice \<open>s\<close> has elements of type \<open>t\<close>; the element built for
  \<open>v\<close> is appended.
\<close>

definition appendMessage ::
  "ty \<Rightarrow> 'm gval list \<Rightarrow> 'm gval \<Rightarrow> 'm heap \<Rightarrow> 'm gval list \<times> 'm heap" where
  "appendMessage t s v h =
     (case newSliceMessageValue t v h of (e, h1) \<Rightarrow> (s @ [e], h1))"

text \<open>
  The loop of \<^verbatim>\<open>RecvAll\<close>. It ends when a call of \<^verbatim>\<open>RecvMsg\<close> returns an error: with the
  slice built so far when the error is \<^verbatim>\<open>io.EOF\<close> (\<^verbatim>\<open>break\<close>), with the wrapped error
  otherwise. On a stream that never returns an error it does not end: the result is
  \<open>None\<close>. The result holds the position reached in the stream and the memory.
\<close>

partial_function (option) recvLoop ::
  "'m stream \<Rightarrow> nat \<Rightarrow> ty \<Rightarrow> 'm gval list \<Rightarrow> 'm heap
     \<Rightarrow> ((error + 'm gval list) \<times> nat \<times> 'm heap) option" where
  "recvLoop stream n typeOfMsg newValueOf h =
     (case newMessageValue typeOfMsg h of
        (msg, h1) \<Rightarrow>
          (case stream n of
             Failed err \<Rightarrow>
               if errors_Is err EOF then Some (Inr newValueOf, Suc n, h1)
               else Some (Inl (Errorf_w ''could not recv msg: '' err), Suc n, h1)
           | Received m \<Rightarrow>
               (case appendMessage typeOfMsg newValueOf (Message m) (h1[msg := Message m]) of
                  (newValueOf', h2) \<Rightarrow> recvLoop stream (Suc n) typeOfMsg newValueOf' h2)))"

text \<open>
  How a call ends: it returns (an error, or nil) or it panics.
\<close>

datatype outcome = Returned "error option" | Panicked panic

text \<open>
  \<^verbatim>\<open>RecvAll(out)(stream)\<close>, from the position \<open>n\<close> of the stream and the memory \<open>h\<close>.
  \<^verbatim>\<open>reflect.ValueOf(out).Elem().Set\<close> stores the slice into the cell \<open>out\<close> points to;
  on a nil pointer \<^verbatim>\<open>Elem()\<close> is the zero \<^verbatim>\<open>Value\<close>, and \<^verbatim>\<open>Set\<close> panics.
\<close>

definition RecvAll ::
  "'m iface \<Rightarrow> 'm stream \<Rightarrow> nat \<Rightarrow> 'm heap \<Rightarrow> (outcome \<times> nat \<times> 'm heap) option" where
  "RecvAll out stream n h =
     (case out of
        NilInterface \<Rightarrow> Some (Returned (Some (New (''<nil>'' @ '' is not a pointer''))), n, h)
      | Iface typeOfPtr p \<Rightarrow>
          (case typeOfPtr of
             TPtr typeOfSlice \<Rightarrow>
               (case typeOfSlice of
                  TSlice typeOfMsg \<Rightarrow>
                    (case recvLoop stream n typeOfMsg [] h of
                       None \<Rightarrow> None
                     | Some (Inl err, n', h') \<Rightarrow> Some (Returned (Some err), n', h')
                     | Some (Inr newValueOf, n', h') \<Rightarrow>
                         (case p of
                            Pointer (Some a) \<Rightarrow>
                              Some (Returned None, n', h'[a := SliceOf newValueOf])
                          | _ \<Rightarrow>
                              Some (Panicked
                                (Panic ''reflect: call of reflect.Value.Set on zero Value''),
                                n', h')))
                | _ \<Rightarrow>
                    Some (Returned (Some (New (typeName typeOfPtr @ '' is not a slice''))), n, h))
           | _ \<Rightarrow>
               Some (Returned (Some (New (typeName typeOfPtr @ '' is not a pointer''))), n, h)))"

text \<open>
  For stating what a slice element is: the number of pointer levels of a type, and the
  cells passed and the value reached when a value is followed through that many
  pointers.
\<close>

fun ptrDepth :: "ty \<Rightarrow> nat" where
  "ptrDepth (TPtr t) = Suc (ptrDepth t)"
| "ptrDepth t = 0"

fun follow :: "nat \<Rightarrow> 'm heap \<Rightarrow> 'm gval \<Rightarrow> (addr list \<times> 'm gval) option" where
  "follow 0 h v = Some ([], v)"
| "follow (Suc d) h (Pointer (Some b)) =
     (if b < length h then
        (case follow d h (h ! b) of None \<Rightarrow> None | Some (bs, w) \<Rightarrow> Some (b # bs, w))
      else None)"
| "follow (Suc d) h v = None"

declare recvLoop.simps [code]

text \<open>
  The cells \<^verbatim>\<open>newSliceMessageValue\<close> adds for an element type with \<open>d\<close> pointer levels,
  when the memory holds \<open>L\<close> cells, and the element it returns.
\<close>

fun elemAt :: "nat \<Rightarrow> addr \<Rightarrow> 'm gval \<Rightarrow> 'm gval" where
  "elemAt 0 L v = v"
| "elemAt (Suc d) L v = Pointer (Some L)"

fun chainCells :: "nat \<Rightarrow> addr \<Rightarrow> 'm gval \<Rightarrow> 'm gval list" where
  "chainCells 0 L v = []"
| "chainCells (Suc d) L v = elemAt d (Suc L) v # chainCells d (Suc L) v"

section \<open>Properties of the expectation record\<close>

lemma repeatTimes_Fulfilled:
  "unat (repeatTimes (Fulfilled e)) = unat (repeatTimes e) - 1"
proof (cases "repeatTimes e = 0")
  case True
  then show ?thesis by (simp add: Fulfilled_def)
next
  case False
  then have "0 < repeatTimes e" by (simp add: word_greater_zero_iff)
  moreover from False have "unat (repeatTimes e - 1) = unat (repeatTimes e) - 1"
    by (simp add: unat_minus_one)
  ultimately show ?thesis by (simp add: Fulfilled_def)
qed

lemma fulfilledTimes_Fulfilled:
  "fulfilledTimes (Fulfilled e) = fulfilledTimes e + 1"
  by (simp add: Fulfilled_def Let_def)

lemma repeatTimes_step:
  "unat (repeatTimes (step e c)) =
     unat (repeatTimes e) - (if c = CallFulfilled then 1 else 0)"
  by (cases c) (simp_all add: repeatTimes_Fulfilled withFs_def)

lemma fulfilledTimes_step:
  "fulfilledTimes (step e c) = fulfilledTimes e + (if c = CallFulfilled then 1 else 0)"
  by (cases c) (simp_all add: fulfilledTimes_Fulfilled withFs_def)

lemma repeatTimes_run:
  "unat (repeatTimes (run e cs)) = unat (repeatTimes e) - fulfilledCalls cs"
proof (induction cs arbitrary: e)
  case Nil
  show ?case by (simp add: run_def fulfilledCalls_def)
next
  case (Cons c cs)
  have "unat (repeatTimes (run (step e c) cs)) =
          unat (repeatTimes (step e c)) - fulfilledCalls cs"
    using Cons.IH [of "step e c"] .
  then show ?case
    by (simp add: run_def fulfilledCalls_def repeatTimes_step)
qed

lemma fulfilledTimes_run:
  "fulfilledTimes (run e cs) = fulfilledTimes e + of_nat (fulfilledCalls cs)"
proof (induction cs arbitrary: e)
  case Nil
  show ?case by (simp add: run_def fulfilledCalls_def)
next
  case (Cons c cs)
  have "fulfilledTimes (run (step e c) cs) =
          fulfilledTimes (step e c) + of_nat (fulfilledCalls cs)"
    using Cons.IH [of "step e c"] .
  then show ?case
    by (simp add: run_def fulfilledCalls_def fulfilledTimes_step)
qed

lemma unat_eq_zero_word: "unat (w :: uint) = 0 \<Longrightarrow> w = 0"
  by (simp add: unat_eq_0)

text \<open>
  C1. A record is built with \<open>fulfilledTimes = 0\<close> and \<open>withTimes N\<close>. Whatever calls
  are then made on it, only the \<^verbatim>\<open>Fulfilled()\<close> calls among them count:
  with \<open>N > 0\<close>, once the calls contain at least \<open>N\<close> \<^verbatim>\<open>Fulfilled()\<close> calls (exactly
  \<open>N\<close>, or any number of further ones) \<^verbatim>\<open>RemainTimes()\<close> is 0, and before that it is
  \<open>N\<close> minus the number of calls, so it never passes below 0; with \<open>N = 0\<close>
  \<^verbatim>\<open>RemainTimes()\<close> is 0 after any calls; in both cases \<^verbatim>\<open>FulfilledTimes()\<close> is the
  number of \<^verbatim>\<open>Fulfilled()\<close> calls made so far, as a value of type \<^verbatim>\<open>uint\<close> (the
  number itself for fewer than \<open>2 ^ 64\<close> calls).
\<close>

theorem Fulfilled_counts:
  fixes e0 :: "('fs, 'svc, 'hm, 'pm) baseExpectation" and cs :: "'fs call list" and N :: uint
  assumes "fulfilledTimes e0 = 0"
    and "e = run (withTimes N e0) cs"
    and "k = fulfilledCalls cs"
  shows "(0 < N \<and> unat N \<le> k \<longrightarrow> RemainTimes e = 0)
       \<and> (0 < N \<and> k \<le> unat N \<longrightarrow> unat (RemainTimes e) = unat N - k)
       \<and> (N = 0 \<longrightarrow> RemainTimes e = 0)
       \<and> FulfilledTimes e = of_nat k
       \<and> (k < 2 ^ 64 \<longrightarrow> unat (FulfilledTimes e) = k)"
proof -
  have r: "unat (RemainTimes e) = unat N - k"
    unfolding assms(2,3) RemainTimes_def
    by (simp add: repeatTimes_run withTimes_def)
  have f: "FulfilledTimes e = of_nat k"
    unfolding assms(2,3) FulfilledTimes_def
    using assms(1) by (simp add: fulfilledTimes_run withTimes_def)
  have "unat N \<le> k \<Longrightarrow> RemainTimes e = 0"
    using r by (simp add: unat_eq_zero_word)
  moreover have "N = 0 \<Longrightarrow> RemainTimes e = 0"
    using r by (simp add: unat_eq_zero_word)
  moreover have "k < 2 ^ 64 \<Longrightarrow> unat (FulfilledTimes e) = k"
    using f by (simp add: unat_of_nat take_bit_nat_eq_self)
  ultimately show ?thesis using r f by blast
qed

theorem Fulfilled_counts_witness:
  "fulfilledTimes \<lparr>fs = (), serviceDesc = (), requestHeader = (), requestPayload = (),
      statusCode = 0, statusMessage = [], fulfilledTimes = 0, repeatTimes = 0\<rparr> = 0
   \<and> (0 :: uint) < 2 \<and> unat (2 :: uint) \<le> 3 \<and> (3 :: nat) < 2 ^ 64
   \<and> fulfilledCalls [CallFulfilled, CallRemainTimes, CallFulfilled, CallWithFs (), CallFulfilled] = 3
   \<and> RemainTimes (run (withTimes 2 \<lparr>fs = (), serviceDesc = (), requestHeader = (),
        requestPayload = (), statusCode = 0, statusMessage = [], fulfilledTimes = 0,
        repeatTimes = 0\<rparr>)
        [CallFulfilled, CallRemainTimes, CallFulfilled, CallWithFs (), CallFulfilled]) = 0
   \<and> unat (FulfilledTimes (run (withTimes 2 \<lparr>fs = (), serviceDesc = (), requestHeader = (),
        requestPayload = (), statusCode = 0, statusMessage = [], fulfilledTimes = 0,
        repeatTimes = 0\<rparr>)
        [CallFulfilled, CallRemainTimes, CallFulfilled, CallWithFs (), CallFulfilled])) = 3"
proof -
  let ?e0 = "\<lparr>fs = (), serviceDesc = (), requestHeader = (), requestPayload = (),
      statusCode = 0 :: 32 word, statusMessage = [], fulfilledTimes = 0 :: uint,
      repeatTimes = 0 :: uint\<rparr>"
  let ?cs = "[CallFulfilled, CallRemainTimes, CallFulfilled, CallWithFs (), CallFulfilled]"
  have k: "3 = fulfilledCalls ?cs" by (simp add: fulfilledCalls_def)
  have z: "fulfilledTimes ?e0 = 0" by simp
  show ?thesis
    using Fulfilled_counts [OF z refl k, of 2] k by simp
qed

section \<open>Properties of the formatter\<close>

lemma headerEntries_extends:
  "\<exists>rest. fst (headerEntries q header keys w) = w @ rest"
proof (induction keys arbitrary: w)
  case Nil
  show ?case by simp
next
  case (Cons key keys)
  show ?case
  proof (cases "formatValueInline q (lookup header key)")
    case (Inl p)
    then show ?thesis by simp
  next
    case (Inr s)
    obtain rest where
      "fst (headerEntries q header keys (w @ indent @ indent @ key @ '': '' @ s @ [newline])) =
         (w @ indent @ indent @ key @ '': '' @ s @ [newline]) @ rest"
      using Cons.IH by blast
    with Inr show ?thesis by simp
  qed
qed

lemma digitChar_not_newline: "digitChar n \<noteq> newline"
proof -
  have "n mod 10 < length ''0123456789''" by simp
  then have "''0123456789'' ! (n mod 10) \<in> set ''0123456789''" by (rule nth_mem)
  then show ?thesis
    by (auto simp: digitChar_def newline_def)
qed

lemma digits_no_newline: "newline \<notin> set (digits n)"
proof (induction n rule: digits.induct)
  case (1 n)
  show ?case
  proof (cases "n < 10")
    case True
    then show ?thesis using digitChar_not_newline [of n] by (subst digits.simps) auto
  next
    case False
    then show ?thesis using 1 digitChar_not_newline [of n] by (subst digits.simps) auto
  qed
qed

lemma fmt_d_no_newline: "newline \<notin> set (fmt_d i)"
  using digits_no_newline by (auto simp: fmt_d_def newline_def)

lemma callTimes_no_newline: "newline \<notin> set (callTimes t r)"
  using fmt_d_no_newline [of t] fmt_d_no_newline [of r]
  by (simp add: callTimes_def newline_def)

lemma firstLine_append: "newline \<notin> set l \<Longrightarrow> firstLine (l @ newline # rest) = l"
  by (auto simp: firstLine_def takeWhile_tail)

lemma formatRequestTimes_extends:
  "\<exists>rest. fst (formatRequestTimes q svc header payload t r) =
     (MethodType svc @ '' '' @ FullName svc @
       (if r > 0 \<and> \<not> (t = 0 \<and> r = 1) then callTimes t r else [])) @ newline # rest"
proof -
  let ?l = "MethodType svc @ '' '' @ FullName svc @
       (if r > 0 \<and> \<not> (t = 0 \<and> r = 1) then callTimes t r else [])"
  obtain rest where h: "fst (headerEntries q header (sort (map fst header))
                      ((?l @ [newline]) @ indent @ ''with header:'' @ [newline])) =
        ((?l @ [newline]) @ indent @ ''with header:'' @ [newline]) @ rest"
    using headerEntries_extends by blast
  show ?thesis
    unfolding formatRequestTimes_def Let_def
    using h
    by (auto split: prod.splits option.splits sum.splits)
qed

text \<open>
  C2. The first line the expected-request formatter writes is the method type, a space
  and the full name, followed by the suffix \<^verbatim>\<open> (called: T time(s), remaining: R time(s))\<close>
  exactly when \<open>remainingCalls > 0\<close> and not (\<open>totalCalls = 0\<close> and
  \<open>remainingCalls = 1\<close>), and by nothing otherwise; this holds whatever the header and
  the payload are, also when formatting them panics later. The method type and the name
  are taken to contain no line feed, so that the first line is theirs.
\<close>

theorem first_line_call_times:
  assumes "newline \<notin> set (MethodType svc)" and "newline \<notin> set (FullName svc)"
  shows "firstLine (fst (ExpectedRequestTimes q svc header payload totalCalls remainingCalls)) =
     MethodType svc @ '' '' @ FullName svc @
       (if remainingCalls > 0 \<and> \<not> (totalCalls = 0 \<and> remainingCalls = 1)
        then '' (called: '' @ fmt_d totalCalls @ '' time(s), remaining: '' @
               fmt_d remainingCalls @ '' time(s))''
        else [])"
proof -
  define l where "l = MethodType svc @ '' '' @ FullName svc @
       (if remainingCalls > 0 \<and> \<not> (totalCalls = 0 \<and> remainingCalls = 1)
        then callTimes totalCalls remainingCalls else [])"
  have same: "map (\<lambda>(k, v). (k, v)) header = header" by (induction header) auto
  obtain rest where
    "fst (formatRequestTimes q svc header payload totalCalls remainingCalls) = l @ newline # rest"
    unfolding l_def using formatRequestTimes_extends by blast
  moreover have "newline \<notin> set l"
    unfolding l_def
    using assms callTimes_no_newline [of totalCalls remainingCalls]
    by (simp add: newline_def)
  ultimately have "firstLine (fst (formatRequestTimes q svc header payload totalCalls remainingCalls)) = l"
    by (simp add: firstLine_append)
  then show ?thesis
    by (simp add: ExpectedRequestTimes_def same callTimes_def l_def)
qed

theorem first_line_call_times_witness:
  "newline \<notin> set (MethodType \<lparr>MethodType = ''Unary'', FullName = ''/pkg.Service/Method''\<rparr>)
   \<and> newline \<notin> set (FullName \<lparr>MethodType = ''Unary'', FullName = ''/pkg.Service/Method''\<rparr>)
   \<and> firstLine (fst (ExpectedRequestTimes (\<lambda>s. s)
        \<lparr>MethodType = ''Unary'', FullName = ''/pkg.Service/Method''\<rparr> [] Nil 0 1)) =
      ''Unary /pkg.Service/Method''
   \<and> firstLine (fst (ExpectedRequestTimes (\<lambda>s. s)
        \<lparr>MethodType = ''Unary'', FullName = ''/pkg.Service/Method''\<rparr> [] Nil 2 1)) =
      ''Unary /pkg.Service/Method (called: 2 time(s), remaining: 1 time(s))''"
proof -
  let ?svc = "\<lparr>MethodType = ''Unary'', FullName = ''/pkg.Service/Method''\<rparr>"
  have a: "newline \<notin> set (MethodType ?svc)" by (simp add: newline_def)
  have b: "newline \<notin> set (FullName ?svc)" by (simp add: newline_def)
  show ?thesis
    using a b first_line_call_times [OF a b, of "\<lambda>s. s" "[]" Nil 0 1]
      first_line_call_times [OF a b, of "\<lambda>s. s" "[]" Nil 2 1]
    by (simp add: fmt_d_def digitChar_def)
qed

lemma headerEntries_lines:
  "\<forall>key \<in> set keys. inlineText q (lookup header key) \<noteq> None \<Longrightarrow>
     headerEntries q header keys w = (w @ concat (map (headerLine q header) keys), None)"
proof (induction keys arbitrary: w)
  case Nil
  show ?case by simp
next
  case (Cons key keys)
  from Cons.prems obtain s where s: "formatValueInline q (lookup header key) = Inr s"
    by (auto simp: inlineText_def split: sum.splits)
  have "headerEntries q header keys (w @ indent @ indent @ key @ '': '' @ s @ [newline]) =
        ((w @ indent @ indent @ key @ '': '' @ s @ [newline]) @ concat (map (headerLine q header) keys), None)"
    using Cons.IH Cons.prems by simp
  moreover have "headerLine q header key = indent @ indent @ key @ '': '' @ s @ [newline]"
    using s by (simp add: headerLine_def inlineText_def)
  ultimately show ?case using s by simp
qed

lemma lookup_cong:
  assumes "distinct (map fst h)" and "distinct (map fst h')" and "set h = set h'"
  shows "lookup h = lookup h'"
proof -
  have "map_of h = map_of h'" using assms by (rule map_of_inject_set [THEN iffD2])
  then show ?thesis by (auto simp: lookup_def fun_eq_iff)
qed

lemma sort_keys_cong:
  assumes "distinct (map fst h)" and "distinct (map fst h')" and "set h = set h'"
  shows "sort (map fst h) = sort (map fst h')"
proof (rule sorted_distinct_set_unique)
  show "set (sort (map fst h)) = set (sort (map fst h'))" using assms(3) by simp
qed (simp_all add: assms(1,2))

lemma copy_header: "map (\<lambda>(k, v). (k, v)) header = header"
  by (induction header) auto


lemma formatRequestTimes_payload:
  "formatRequestTimes q svc header payload t r =
     (case formatRequestTimes q svc header Nil t r of
        (w, Some p) \<Rightarrow> (w, Some p)
      | (w, None) \<Rightarrow>
          if IsNil payload then (w, None)
          else (case formatValue payload of
                  Inl p \<Rightarrow> (w, Some p)
                | Inr bodyStr \<Rightarrow>
                    (w @ (if bodyStr \<noteq> [] then
                            indent @ ''with payload'' @ formatType payload @ [newline]
                              @ indent @ indent @ bodyStr @ [newline]
                          else []), None)))"
  unfolding formatRequestTimes_def Let_def
  by (simp split: prod.splits option.splits sum.splits)

lemma formatRequestTimes_header:
  assumes "header \<noteq> []"
    and "\<forall>key \<in> set (sort (map fst header)). inlineText q (lookup header key) \<noteq> None"
  shows "formatRequestTimes q svc header Nil t r =
     (fst (formatRequestTimes q svc [] Nil t r) @ indent @ ''with header:'' @ [newline]
        @ concat (map (headerLine q header) (sort (map fst header))), None)"
  unfolding formatRequestTimes_def Let_def
  using assms(1) headerEntries_lines [OF assms(2)]
  by simp

lemma isMatcher_inlineText: "isMatcher v \<Longrightarrow> inlineText q v \<noteq> None"
  unfolding inlineText_def
  by (induction q v rule: formatValueInline.induct) (simp_all split: if_splits)

lemma lookup_in_header:
  assumes "key \<in> fst ` set header"
  shows "lookup header key \<in> snd ` set header"
proof -
  from assms obtain v where "map_of header key = Some v"
    by (metis domD dom_map_of_conv_image_fst)
  moreover from this have "(key, v) \<in> set header" by (rule map_of_SomeD)
  ultimately show ?thesis by (force simp: lookup_def)
qed

text \<open>
  C6. For a non-empty header (a map: its keys are distinct), what the expected-request
  formatter writes does not depend on the order in which the map lists its entries; and
  for a header matcher (every value is a matcher or nil), the text written is the request
  line, the line \<^verbatim>\<open>    with header:\<close>, then one line per key, the keys in strictly
  ascending lexicographic (byte) order, then whatever the payload adds.
\<close>

theorem header_sorted_by_key:
  assumes "distinct (map fst header)" and "header \<noteq> []"
  shows "(\<forall>header'. distinct (map fst header') \<and> set header' = set header \<longrightarrow>
            ExpectedRequestTimes q svc header' payload t r =
            ExpectedRequestTimes q svc header payload t r)
       \<and> ((\<forall>v \<in> snd ` set header. isMatcher v) \<longrightarrow>
            (\<exists>keys post. sorted_wrt (<) keys \<and> set keys = fst ` set header
               \<and> fst (ExpectedRequestTimes q svc header payload t r) =
                   fst (ExpectedRequestTimes q svc [] Nil t r) @ indent @ ''with header:''
                     @ [newline] @ concat (map (headerLine q header) keys) @ post))"
proof (intro conjI allI impI)
  fix header' :: header
  assume h: "distinct (map fst header') \<and> set header' = set header"
  then have "lookup header' = lookup header" and "sort (map fst header') = sort (map fst header)"
    using assms(1) lookup_cong [of header' header] sort_keys_cong [of header' header] by simp_all
  moreover have "length header' > 0 \<longleftrightarrow> length header > 0"
    using h by (metis length_greater_0_conv set_empty)
  moreover have "\<And>ks w. headerEntries q header' ks w = headerEntries q header ks w"
  proof -
    fix ks w
    show "headerEntries q header' ks w = headerEntries q header ks w"
      using \<open>lookup header' = lookup header\<close>
      by (induction ks arbitrary: w) (simp_all split: sum.splits)
  qed
  ultimately show "ExpectedRequestTimes q svc header' payload t r =
            ExpectedRequestTimes q svc header payload t r"
    unfolding ExpectedRequestTimes_def copy_header formatRequestTimes_def Let_def
    by simp
next
  assume m: "\<forall>v \<in> snd ` set header. isMatcher v"
  have ok: "\<forall>key \<in> fst ` set header. inlineText q (lookup header key) \<noteq> None"
    using m lookup_in_header isMatcher_inlineText by blast
  define keys where "keys = sort (map fst header)"
  have s: "sorted_wrt (<) keys" and k: "set keys = fst ` set header"
    using assms(1) by (simp_all add: keys_def strict_sorted_iff)
  have ok': "\<forall>key \<in> set (sort (map fst header)). inlineText q (lookup header key) \<noteq> None"
    using ok by simp
  have hd: "formatRequestTimes q svc header Nil t r =
     (fst (formatRequestTimes q svc [] Nil t r) @ indent @ ''with header:'' @ [newline]
        @ concat (map (headerLine q header) keys), None)"
    unfolding keys_def by (rule formatRequestTimes_header [OF assms(2) ok'])
  have "\<exists>post. fst (formatRequestTimes q svc header payload t r) =
          fst (formatRequestTimes q svc header Nil t r) @ post"
    by (subst formatRequestTimes_payload) (auto simp: hd split: sum.splits)
  then obtain post where
    "fst (formatRequestTimes q svc header payload t r) =
       fst (formatRequestTimes q svc [] Nil t r) @ indent @ ''with header:'' @ [newline]
        @ concat (map (headerLine q header) keys) @ post"
    using hd by auto
  then show "\<exists>keys post. sorted_wrt (<) keys \<and> set keys = fst ` set header
               \<and> fst (ExpectedRequestTimes q svc header payload t r) =
                   fst (ExpectedRequestTimes q svc [] Nil t r) @ indent @ ''with header:''
                     @ [newline] @ concat (map (headerLine q header) keys) @ post"
    using s k by (auto simp: ExpectedRequestTimes_def copy_header)
qed

lemma header_matcher_no_panic:
  assumes "\<forall>v \<in> snd ` set header. isMatcher v"
  shows "snd (formatRequestTimes q svc header Nil t r) = None"
proof (cases "header = []")
  case True
  then show ?thesis by (simp add: formatRequestTimes_def Let_def)
next
  case False
  have "\<forall>key \<in> set (sort (map fst header)). inlineText q (lookup header key) \<noteq> None"
  proof
    fix key
    assume "key \<in> set (sort (map fst header))"
    then have "key \<in> fst ` set header" by simp
    then have "lookup header key \<in> snd ` set header" by (rule lookup_in_header)
    then have "isMatcher (lookup header key)" using assms by blast
    then show "inlineText q (lookup header key) \<noteq> None" by (rule isMatcher_inlineText)
  qed
  from formatRequestTimes_header [OF False this] show ?thesis by simp
qed

text \<open>
  C7, as amended. The header is a header matcher, the payload is not a nil-equivalent and
  its formatted text is \<open>body\<close>. Then the expected-request formatter writes, after the
  request line and the header block, the line \<^verbatim>\<open>    with payload\<close> with the type tag
  of \<^verbatim>\<open>formatType\<close>, and the line of the body at two indents, when the body is not
  empty; it writes nothing for the payload when the body is empty.
\<close>

theorem payload_block:
  assumes "\<not> IsNil payload" and "formatValue payload = Inr body"
    and "\<forall>v \<in> snd ` set header. isMatcher v"
  shows "ExpectedRequestTimes q svc header payload t r =
           (fst (ExpectedRequestTimes q svc header Nil t r) @
              (if body \<noteq> [] then
                 indent @ ''with payload'' @ formatType payload @ [newline]
                   @ indent @ indent @ body @ [newline]
               else []), None)"
proof -
  have "snd (formatRequestTimes q svc header Nil t r) = None"
    using assms(3) by (rule header_matcher_no_panic)
  then obtain w where w: "formatRequestTimes q svc header Nil t r = (w, None)"
    by (cases "formatRequestTimes q svc header Nil t r") simp
  have "formatRequestTimes q svc header payload t r =
         (w @ (if body \<noteq> [] then
                 indent @ ''with payload'' @ formatType payload @ [newline]
                   @ indent @ indent @ body @ [newline]
               else []), None)"
    by (subst formatRequestTimes_payload) (simp add: w assms(1,2))
  then show ?thesis
    by (simp add: ExpectedRequestTimes_def copy_header w)
qed

text \<open>
  C8. Formatting a callback matcher that wraps the exact matcher of \<^verbatim>\<open>hello\<close> (the
  exact matcher whose \<^verbatim>\<open>Expected()\<close> is \<^verbatim>\<open>hello\<close>) gives the text that formatting the
  string \<^verbatim>\<open>hello\<close>, or the byte sequence, gives: \<^verbatim>\<open>hello\<close> itself.
\<close>

theorem callback_exact_roundtrip:
  "formatValue (Callback (ExactMatcher ''hello'')) = formatValue (Str ''hello'')
   \<and> formatValue (Callback (ExactMatcher ''hello'')) = formatValue (Bytes (Some ''hello''))
   \<and> formatValue (Str ''hello'') = Inr ''hello''"
  by simp


theorem header_sorted_by_key_witness:
  "distinct (map fst [(''b'', ExactMatcher ''2''), (''a'', ExactMatcher ''1'')])
   \<and> [(''b'', ExactMatcher ''2''), (''a'', ExactMatcher ''1'')] \<noteq> []
   \<and> isMatcher (ExactMatcher ''2'') \<and> isMatcher (ExactMatcher ''1'')
   \<and> ExpectedRequestTimes (\<lambda>s. s) \<lparr>MethodType = ''Unary'', FullName = ''/pkg.Service/Method''\<rparr>
        [(''a'', ExactMatcher ''1''), (''b'', ExactMatcher ''2'')] Nil 0 0 =
      ExpectedRequestTimes (\<lambda>s. s) \<lparr>MethodType = ''Unary'', FullName = ''/pkg.Service/Method''\<rparr>
        [(''b'', ExactMatcher ''2''), (''a'', ExactMatcher ''1'')] Nil 0 0
   \<and> ExpectedRequestTimes (\<lambda>s. s) \<lparr>MethodType = ''Unary'', FullName = ''/pkg.Service/Method''\<rparr>
        [(''b'', ExactMatcher ''2''), (''a'', ExactMatcher ''1'')] Nil 0 0 =
      (''Unary /pkg.Service/Method'' @ [newline] @
       ''    with header:'' @ [newline] @
       ''        a: 1'' @ [newline] @
       ''        b: 2'' @ [newline], None)"
proof -
  let ?h = "[(''b'', ExactMatcher ''2''), (''a'', ExactMatcher ''1'')]"
  let ?h' = "[(''a'', ExactMatcher ''1''), (''b'', ExactMatcher ''2'')]"
  let ?svc = "\<lparr>MethodType = ''Unary'', FullName = ''/pkg.Service/Method''\<rparr>"
  have d: "distinct (map fst ?h)" and n: "?h \<noteq> []" by simp_all
  have d': "distinct (map fst ?h') \<and> set ?h' = set ?h" by auto
  have "ExpectedRequestTimes (\<lambda>s. s) ?svc ?h' Nil 0 0 = ExpectedRequestTimes (\<lambda>s. s) ?svc ?h Nil 0 0"
    using header_sorted_by_key [OF d n, of "\<lambda>s. s" ?svc Nil 0 0] d' by blast
  moreover have "ExpectedRequestTimes (\<lambda>s. s) ?svc ?h Nil 0 0 =
      (''Unary /pkg.Service/Method'' @ [newline] @
       ''    with header:'' @ [newline] @
       ''        a: 1'' @ [newline] @
       ''        b: 2'' @ [newline], None)"
    by (simp add: ExpectedRequestTimes_def formatRequestTimes_def lookup_def indent_def)
  ultimately show ?thesis using d n by simp
qed

text \<open>
  C7 as stated fails: an exact matcher whose description is empty is not a
  nil-equivalent, and no payload line is written for it; the same holds for the empty
  string handed to \<^verbatim>\<open>Request\<close>.
\<close>

theorem payload_block_counterexample:
  "\<not> IsNil (ExactMatcher [])
   \<and> ExpectedRequestTimes (\<lambda>s. s) \<lparr>MethodType = ''Unary'', FullName = ''/pkg.Service/Method''\<rparr>
        [] (ExactMatcher []) 0 0 = (''Unary /pkg.Service/Method'' @ [newline], None)
   \<and> \<not> IsNil (Str [])
   \<and> Request (\<lambda>s. s) \<lparr>MethodType = ''Unary'', FullName = ''/pkg.Service/Method''\<rparr>
        [] (Str []) = (''Unary /pkg.Service/Method'' @ [newline], None)"
  by (simp add: ExpectedRequestTimes_def Request_def formatRequestTimes_def)

theorem payload_block_witness:
  "\<not> IsNil (OtherMatcher ''matcher.JSONMatcher'' ''abc'')
   \<and> formatValue (OtherMatcher ''matcher.JSONMatcher'' ''abc'') = Inr ''abc''
   \<and> isMatcher (FnMatcher [])
   \<and> ExpectedRequestTimes (\<lambda>s. s) \<lparr>MethodType = ''Unary'', FullName = ''/pkg.Service/Method''\<rparr>
        [(''k'', FnMatcher [])] (OtherMatcher ''matcher.JSONMatcher'' ''abc'') 0 0 =
      (''Unary /pkg.Service/Method'' @ [newline] @
       ''    with header:'' @ [newline] @
       ''        k: matches custom expectation'' @ [newline] @
       ''    with payload using matcher.JSONMatcher'' @ [newline] @
       ''        abc'' @ [newline], None)"
proof -
  let ?p = "OtherMatcher ''matcher.JSONMatcher'' ''abc''"
  let ?h = "[(''k'', FnMatcher [])]"
  let ?svc = "\<lparr>MethodType = ''Unary'', FullName = ''/pkg.Service/Method''\<rparr>"
  have a: "\<not> IsNil ?p" and b: "formatValue ?p = Inr ''abc''" by simp_all
  have c: "\<forall>v \<in> snd ` set ?h. isMatcher v" by simp
  have "fst (ExpectedRequestTimes (\<lambda>s. s) ?svc ?h Nil 0 0) =
      ''Unary /pkg.Service/Method'' @ [newline] @ ''    with header:'' @ [newline] @
      ''        k: matches custom expectation'' @ [newline]"
    by (simp add: ExpectedRequestTimes_def formatRequestTimes_def lookup_def indent_def)
  then show ?thesis
    using a b payload_block [OF a b c, of "\<lambda>s. s" ?svc 0 0] by (simp add: indent_def)
qed

section \<open>Properties of parseMethod\<close>

lemmas url_model_defs =
  parseMethod_def url_Parse_def url_parse_def getScheme_def isLetter_def isDigit_def
  stringContainsCTLByte_def HasPrefix_def ToLower_def parseHost_def URL_String_def TrimLeft_def
  validOptionalPort_def hostByte_def inRange_def

text \<open>
  C3 as stated fails: in \<^verbatim>\<open>dns:///localhost:50051/pkg.Service/Method\<close> the authority,
  between \<^verbatim>\<open>//\<close> and the next slash, is empty, so host and port are the first segment
  of the path: the target is \<^verbatim>\<open>dns:\<close> and the method path holds the host.
\<close>

theorem parseMethod_dns_counterexample:
  "plainURL ''dns:///localhost:50051/pkg.Service/Method''
   \<and> parseMethod url_Parse URL_String ''dns:///localhost:50051/pkg.Service/Method'' =
       Inr (''dns:'', ''/localhost:50051/pkg.Service/Method'')
   \<and> parseMethod url_Parse URL_String ''dns:///localhost:50051/pkg.Service/Method'' \<noteq>
       Inr (''dns:///localhost:50051'', ''/pkg.Service/Method'')"
  by (simp add: url_model_defs plainURL_def)

text \<open>
  C3, as amended. The URL \<^verbatim>\<open>dns:///localhost:50051/pkg.Service/Method\<close> gives the
  target \<^verbatim>\<open>dns:\<close> and the method path \<^verbatim>\<open>/localhost:50051/pkg.Service/Method\<close>; with two
  slashes, \<^verbatim>\<open>dns://localhost:50051/pkg.Service/Method\<close> gives the target
  \<^verbatim>\<open>dns://localhost:50051\<close> and the method path \<^verbatim>\<open>/pkg.Service/Method\<close>. For every URL that
  \<^verbatim>\<open>url.Parse\<close> accepts, whatever \<^verbatim>\<open>url.Parse\<close> and \<^verbatim>\<open>URL.String\<close> are,
  \<^verbatim>\<open>parseMethod\<close> returns the missing-method error exactly when the path of the URL is
  empty or holds slashes only.
\<close>

theorem parseMethod_target_and_path:
  "plainURL ''dns:///localhost:50051/pkg.Service/Method''
   \<and> plainURL ''dns://localhost:50051/pkg.Service/Method''
   \<and> parseMethod url_Parse URL_String ''dns:///localhost:50051/pkg.Service/Method'' =
       Inr (''dns:'', ''/localhost:50051/pkg.Service/Method'')
   \<and> parseMethod url_Parse URL_String ''dns://localhost:50051/pkg.Service/Method'' =
       Inr (''dns://localhost:50051'', ''/pkg.Service/Method'')
   \<and> (parse method = Inr u \<longrightarrow>
        (parseMethod parse str method = Inl ErrMissingMethod \<longleftrightarrow> set (Path u) \<subseteq> {CHR ''/''}))"
proof (intro conjI impI)
  show "plainURL ''dns:///localhost:50051/pkg.Service/Method''"
    and "plainURL ''dns://localhost:50051/pkg.Service/Method''"
    by (simp_all add: plainURL_def)
  show "parseMethod url_Parse URL_String ''dns:///localhost:50051/pkg.Service/Method'' =
       Inr (''dns:'', ''/localhost:50051/pkg.Service/Method'')"
    by (simp add: url_model_defs)
  show "parseMethod url_Parse URL_String ''dns://localhost:50051/pkg.Service/Method'' =
       Inr (''dns://localhost:50051'', ''/pkg.Service/Method'')"
    by (simp add: url_model_defs)
next
  assume p: "parse method = Inr u"
  have "TrimLeft (Path u) ''/'' = [] \<longleftrightarrow> set (Path u) \<subseteq> {CHR ''/''}"
    by (auto simp: TrimLeft_def dropWhile_eq_Nil_conv)
  then show "parseMethod parse str method = Inl ErrMissingMethod \<longleftrightarrow> set (Path u) \<subseteq> {CHR ''/''}"
    using p by (simp add: parseMethod_def Let_def)
qed

theorem parseMethod_target_and_path_witness:
  "url_Parse ''dns://localhost:50051///'' =
     Inr \<lparr>Scheme = ''dns'', User = None, Host = ''localhost:50051'', Path = ''///''\<rparr>
   \<and> parseMethod url_Parse URL_String ''dns://localhost:50051///'' = Inl ErrMissingMethod
   \<and> url_Parse ''dns://localhost:50051'' =
     Inr \<lparr>Scheme = ''dns'', User = None, Host = ''localhost:50051'', Path = []\<rparr>
   \<and> parseMethod url_Parse URL_String ''dns://localhost:50051'' = Inl ErrMissingMethod"
proof -
  have a: "url_Parse ''dns://localhost:50051///'' =
     Inr \<lparr>Scheme = ''dns'', User = None, Host = ''localhost:50051'', Path = ''///''\<rparr>"
    by (simp add: url_model_defs)
  have b: "url_Parse ''dns://localhost:50051'' =
     Inr \<lparr>Scheme = ''dns'', User = None, Host = ''localhost:50051'', Path = []\<rparr>"
    by (simp add: url_model_defs)
  show ?thesis
    using a b
      parseMethod_target_and_path [of url_Parse "''dns://localhost:50051///''" _ URL_String]
      parseMethod_target_and_path [of url_Parse "''dns://localhost:50051''" _ URL_String]
    by simp
qed

section \<open>Properties of RecvAll\<close>

subsection \<open>Allocation\<close>

lemma newMessageValue_cell: "\<exists>z. newMessageValue t h = (length h, h @ [z])"
  by (induction t arbitrary: h) (simp_all add: reflect_New_def)

lemma length_chainCells: "length (chainCells d L v) = d"
  by (induction d arbitrary: L) simp_all

lemma newSliceMessageValue_chain:
  "newSliceMessageValue t v h =
     (elemAt (ptrDepth t) (length h) v, h @ chainCells (ptrDepth t) (length h) v)"
proof (induction t arbitrary: h)
  case (TPtr t)
  have "newSliceMessageValue t v (h @ [zeroOf t]) =
      (elemAt (ptrDepth t) (Suc (length h)) v,
       (h @ [zeroOf t]) @ chainCells (ptrDepth t) (Suc (length h)) v)"
    using TPtr.IH [of "h @ [zeroOf t]"] by simp
  then show ?case
    by (simp add: reflect_New_def list_update_append)
qed simp_all

lemma follow_chain:
  "follow d (pre @ chainCells d (length pre) v @ post) (elemAt d (length pre) v) =
     Some ([length pre ..< length pre + d], v)"
proof (induction d arbitrary: pre)
  case 0
  show ?case by simp
next
  case (Suc d)
  let ?x = "elemAt d (Suc (length pre)) v"
  let ?h = "pre @ chainCells (Suc d) (length pre) v @ post"
  have h: "?h = (pre @ [?x]) @ chainCells d (length (pre @ [?x])) v @ post" by simp
  have "follow d ?h ?x = Some ([Suc (length pre) ..< Suc (length pre) + d], v)"
    using Suc.IH [of "pre @ [?x]"] unfolding h by simp
  moreover have "?h ! length pre = ?x" by (simp add: nth_append)
  moreover have "length pre < length ?h" by simp
  ultimately have "follow (Suc d) ?h (Pointer (Some (length pre))) =
      Some (length pre # [Suc (length pre) ..< Suc (length pre) + d], v)"
    by (simp del: chainCells.simps)
  then show ?case by (simp add: upt_conv_Cons del: chainCells.simps)
qed

lemma follow_update:
  "follow d h v = Some (bs, w) \<Longrightarrow> a \<notin> set bs \<Longrightarrow> follow d (h[a := x]) v = Some (bs, w)"
proof (induction d h v arbitrary: bs rule: follow.induct)
  case (1 h v)
  then show ?case by simp
next
  case (2 d h b)
  from "2.prems"(1) have b: "b < length h"
    by (simp split: if_splits)
  with "2.prems"(1) obtain bs' where
    f: "follow d h (h ! b) = Some (bs', w)" and bs: "bs = b # bs'"
    by (auto split: option.splits)
  from bs "2.prems"(2) have "a \<noteq> b" and "a \<notin> set bs'" by auto
  then have "follow d (h[a := x]) (h ! b) = Some (bs', w)"
    using "2.IH" [OF b f] by simp
  with b bs \<open>a \<noteq> b\<close> show ?case by simp
qed simp_all

subsection \<open>The loop\<close>

lemma appendMessage_chain:
  "appendMessage t s v h =
     (s @ [elemAt (ptrDepth t) (length h) v], h @ chainCells (ptrDepth t) (length h) v)"
  by (simp add: appendMessage_def newSliceMessageValue_chain)

lemma recvLoop_extends_aux:
  assumes "recvLoop stream n t acc h = Some y"
  shows "\<exists>ext. snd (snd y) = h @ ext"
proof (rule recvLoop.raw_induct
    [where P = "\<lambda>stream n t acc h y. \<exists>ext. snd (snd y) = h @ ext", OF _ assms], goal_cases)
  case (1 recvLoop stream n t acc h y)
  obtain z where z: "newMessageValue t h = (length h, h @ [z])"
    using newMessageValue_cell by blast
  show ?case
  proof (cases "stream n")
    case (Failed err)
    with z "1"(2) show ?thesis by (auto split: if_splits)
  next
    case (Received m)
    with z "1"(2) have
      "recvLoop stream (Suc n) t (acc @ [elemAt (ptrDepth t) (Suc (length h)) (Message m)])
         ((h @ [Message m]) @ chainCells (ptrDepth t) (Suc (length h)) (Message m)) = Some y"
      by (simp add: appendMessage_chain)
    from "1"(1) [OF this] show ?thesis by auto
  qed
qed

lemma recvLoop_extends:
  "recvLoop stream n t acc h = Some (r, n', h') \<Longrightarrow> \<exists>ext. h' = h @ ext"
  using recvLoop_extends_aux [of stream n t acc h "(r, n', h')"] by simp

lemma recvLoop_messages:
  assumes "\<forall>i<length ms. stream (n + i) = Received (ms ! i)"
    and "stream (n + length ms) = Failed err"
  shows "\<exists>vs ext.
      recvLoop stream n t acc h =
        Some (if errors_Is err EOF then Inr (acc @ vs)
              else Inl (Errorf_w ''could not recv msg: '' err),
              n + length ms + 1, h @ ext)
    \<and> length vs = length ms
    \<and> (\<forall>i<length ms. follow (ptrDepth t) (h @ ext) (vs ! i) =
          Some ([length h + i * Suc (ptrDepth t) + 1 ..<
                 length h + i * Suc (ptrDepth t) + 1 + ptrDepth t], Message (ms ! i)))"
  using assms
proof (induction ms arbitrary: n acc h)
  case Nil
  obtain z where z: "newMessageValue t h = (length h, h @ [z])"
    using newMessageValue_cell by blast
  from Nil.prems(2) have "stream n = Failed err" by simp
  with z have "recvLoop stream n t acc h =
        Some (if errors_Is err EOF then Inr (acc @ [])
              else Inl (Errorf_w ''could not recv msg: '' err), n + length [] + 1, h @ [z])"
    by (subst recvLoop.simps) simp
  then show ?case by (intro exI [of _ "[]"] exI [of _ "[z]"]) simp
next
  case (Cons m ms)
  let ?d = "ptrDepth t"
  let ?L = "length h"
  let ?v = "elemAt ?d (Suc ?L) (Message m)"
  let ?pre = "h @ [Message m]"
  let ?h2 = "?pre @ chainCells ?d (Suc ?L) (Message m)"
  obtain z where z: "newMessageValue t h = (?L, h @ [z])"
    using newMessageValue_cell by blast
  from Cons.prems(1) have s0: "stream n = Received m" by force
  have s1: "\<forall>i<length ms. stream (Suc n + i) = Received (ms ! i)"
  proof (intro allI impI)
    fix i assume "i < length ms"
    then have "stream (n + Suc i) = Received ((m # ms) ! Suc i)"
      using Cons.prems(1) by (metis Suc_less_eq length_Cons)
    then show "stream (Suc n + i) = Received (ms ! i)" by simp
  qed
  have s2: "stream (Suc n + length ms) = Failed err" using Cons.prems(2) by simp
  obtain vs ext where
    r: "recvLoop stream (Suc n) t (acc @ [?v]) ?h2 =
        Some (if errors_Is err EOF then Inr ((acc @ [?v]) @ vs)
              else Inl (Errorf_w ''could not recv msg: '' err),
              Suc n + length ms + 1, ?h2 @ ext)"
    and l: "length vs = length ms"
    and f: "\<forall>i<length ms. follow ?d (?h2 @ ext) (vs ! i) =
          Some ([length ?h2 + i * Suc ?d + 1 ..< length ?h2 + i * Suc ?d + 1 + ?d],
                Message (ms ! i))"
    using Cons.IH [OF s1 s2, of "acc @ [?v]" ?h2] by blast
  let ?ext = "Message m # chainCells ?d (Suc ?L) (Message m) @ ext"
  have e: "?h2 @ ext = h @ ?ext" by simp
  have "recvLoop stream n t acc h = recvLoop stream (Suc n) t (acc @ [?v]) ?h2"
    using z s0 by (subst recvLoop.simps) (simp add: appendMessage_chain)
  with r have 1: "recvLoop stream n t acc h =
        Some (if errors_Is err EOF then Inr (acc @ (?v # vs))
              else Inl (Errorf_w ''could not recv msg: '' err),
              n + length (m # ms) + 1, h @ ?ext)"
    by simp
  have 2: "length (?v # vs) = length (m # ms)" using l by simp
  have 3: "follow ?d (h @ ?ext) ((?v # vs) ! i) =
          Some ([?L + i * Suc ?d + 1 ..< ?L + i * Suc ?d + 1 + ?d], Message ((m # ms) ! i))"
    if i: "i < length (m # ms)" for i
  proof (cases i)
    case 0
    have "follow ?d (?pre @ chainCells ?d (length ?pre) (Message m) @ ext)
            (elemAt ?d (length ?pre) (Message m)) =
          Some ([length ?pre ..< length ?pre + ?d], Message m)"
      by (rule follow_chain)
    with 0 show ?thesis by simp
  next
    case (Suc j)
    with i have j: "j < length ms" by simp
    have A: "follow ?d (?h2 @ ext) (vs ! j) =
          Some ([length ?h2 + j * Suc ?d + 1 ..< length ?h2 + j * Suc ?d + 1 + ?d],
                Message (ms ! j))"
      using f j by blast
    have B: "length ?h2 + j * Suc ?d + 1 = ?L + i * Suc ?d + 1"
      using Suc by (simp add: length_chainCells)
    have C: "(?v # vs) ! i = vs ! j" "(m # ms) ! i = ms ! j" using Suc by simp_all
    from A have "follow ?d (h @ ?ext) (vs ! j) =
          Some ([?L + i * Suc ?d + 1 ..< ?L + i * Suc ?d + 1 + ?d], Message (ms ! j))"
      by (simp only: e B)
    then show ?thesis by (simp only: C)
  qed
  from 1 2 3 show ?case by blast
qed

lemma follow_bounds:
  "follow d h v = Some (bs, w) \<Longrightarrow> b \<in> set bs \<Longrightarrow> b < length h"
proof (induction d h v arbitrary: bs rule: follow.induct)
  case (2 d h c)
  from "2.prems"(1) have c: "c < length h" by (simp split: if_splits)
  with "2.prems"(1) obtain bs' where
    f: "follow d h (h ! c) = Some (bs', w)" and bs: "bs = c # bs'"
    by (auto split: option.splits)
  show ?case
  proof (cases "b = c")
    case True
    with c show ?thesis by simp
  next
    case False
    with bs "2.prems"(2) have "b \<in> set bs'" by simp
    then show ?thesis using "2.IH" [OF c f] by simp
  qed
qed simp_all

lemma blocks_disjoint:
  fixes L d i j :: nat
  assumes "i < j"
  shows "{L + i * Suc d + 1 ..< L + i * Suc d + 1 + d} \<inter>
         {L + j * Suc d + 1 ..< L + j * Suc d + 1 + d} = {}"
proof -
  have "Suc i * Suc d \<le> j * Suc d" using assms by (intro mult_le_mono1) simp
  then have "L + i * Suc d + 1 + d \<le> L + j * Suc d + 1" by simp
  then show ?thesis by auto
qed

subsection \<open>The claims\<close>

text \<open>
  C4. The stream yields the messages \<open>ms\<close> (three of them, say) and then an error that
  is \<^verbatim>\<open>io.EOF\<close>; \<open>out\<close> is a pointer to a slice, the cell \<open>a\<close> of the memory. Then
  the handler returns nil after \<open>length ms + 1\<close> calls of \<^verbatim>\<open>RecvMsg\<close>, and the cell
  \<open>a\<close> holds a slice of as many elements as there were messages, in the order received:
  followed through the pointer levels of the element type, element \<open>i\<close> leads to
  message \<open>i\<close>, through cells that did not exist before the call, that are distinct, and
  that no other element passes through. No other cell of the memory before the call has
  changed.
\<close>

theorem RecvAll_collects:
  assumes "\<forall>i<length ms. stream (n + i) = Received (ms ! i)"
    and "stream (n + length ms) = Failed err" and "errors_Is err EOF"
    and "a < length h"
  shows "\<exists>h' vs cells.
      RecvAll (Iface (TPtr (TSlice typeOfMsg)) (Pointer (Some a))) stream n h =
        Some (Returned None, n + length ms + 1, h')
    \<and> h' ! a = SliceOf vs \<and> length vs = length ms \<and> length cells = length ms
    \<and> (\<forall>i<length ms.
          follow (ptrDepth typeOfMsg) h' (vs ! i) = Some (cells ! i, Message (ms ! i))
        \<and> length (cells ! i) = ptrDepth typeOfMsg \<and> distinct (cells ! i)
        \<and> (\<forall>b \<in> set (cells ! i). length h \<le> b \<and> b < length h')
        \<and> (\<forall>j<length ms. j \<noteq> i \<longrightarrow> set (cells ! i) \<inter> set (cells ! j) = {}))
    \<and> (\<forall>b<length h. b \<noteq> a \<longrightarrow> h' ! b = h ! b)"
proof -
  let ?d = "ptrDepth typeOfMsg"
  let ?L = "length h"
  let ?c = "\<lambda>i. [?L + i * Suc ?d + 1 ..< ?L + i * Suc ?d + 1 + ?d]"
  obtain vs ext where
    r: "recvLoop stream n typeOfMsg [] h = Some (Inr vs, n + length ms + 1, h @ ext)"
    and l: "length vs = length ms"
    and f: "\<forall>i<length ms. follow ?d (h @ ext) (vs ! i) = Some (?c i, Message (ms ! i))"
    using recvLoop_messages [OF assms(1,2), of typeOfMsg "[]" h] assms(3) by auto
  define h' where "h' = (h @ ext)[a := SliceOf vs]"
  define cells where "cells = map ?c [0..<length ms]"
  have 1: "RecvAll (Iface (TPtr (TSlice typeOfMsg)) (Pointer (Some a))) stream n h =
        Some (Returned None, n + length ms + 1, h')"
    by (simp add: RecvAll_def r h'_def)
  have 2: "h' ! a = SliceOf vs" using assms(4) by (simp add: h'_def)
  have 3: "length cells = length ms" by (simp add: cells_def)
  have c: "cells ! i = ?c i" if "i < length ms" for i
    using that by (simp add: cells_def)
  have 4: "follow ?d h' (vs ! i) = Some (cells ! i, Message (ms ! i))" if i: "i < length ms" for i
  proof -
    have "a \<notin> set (?c i)" using assms(4) by simp
    moreover have "follow ?d (h @ ext) (vs ! i) = Some (?c i, Message (ms ! i))"
      using f i by blast
    ultimately have "follow ?d ((h @ ext)[a := SliceOf vs]) (vs ! i) =
        Some (?c i, Message (ms ! i))"
      by (rule follow_update [rotated])
    then show ?thesis by (simp only: h'_def c [OF i])
  qed
  have 5: "length (cells ! i) = ?d \<and> distinct (cells ! i)" if i: "i < length ms" for i
    by (simp add: c [OF i])
  have 6: "length h \<le> b \<and> b < length h'" if i: "i < length ms" and b: "b \<in> set (cells ! i)" for i b
  proof
    have "b \<in> {?L + i * Suc ?d + 1 ..< ?L + i * Suc ?d + 1 + ?d}"
      using b by (simp only: c [OF i] set_upt)
    then show "length h \<le> b" by simp
    show "b < length h'" using follow_bounds [OF 4 [OF i] b] .
  qed
  have 7: "set (cells ! i) \<inter> set (cells ! j) = {}"
    if i: "i < length ms" and j: "j < length ms" and ne: "j \<noteq> i" for i j
  proof (cases "i < j")
    case True
    then show ?thesis using blocks_disjoint [of i j ?L ?d] by (simp only: c [OF i] c [OF j] set_upt)
  next
    case False
    with ne have "j < i" by simp
    then have "set (cells ! j) \<inter> set (cells ! i) = {}"
      using blocks_disjoint [of j i ?L ?d] by (simp only: c [OF i] c [OF j] set_upt)
    then show ?thesis by (simp only: Int_commute)
  qed
  have 8: "h' ! b = h ! b" if "b < length h" and "b \<noteq> a" for b
    using that by (simp add: h'_def nth_append)
  from 1 2 l 3 4 5 6 7 8 show ?thesis by blast
qed

text \<open>
  C5, as amended. The handler returns an error that names the type when \<open>out\<close> is the
  nil interface, when its type is not a pointer type, and when its type is a pointer to
  a type that is not a slice; the stream is not read and the memory is not touched. When
  a call of \<^verbatim>\<open>RecvMsg\<close> fails with an error that is not \<^verbatim>\<open>io.EOF\<close>, after any number of
  messages, the handler returns that error wrapped by \<^verbatim>\<open>fmt.Errorf\<close> with the text
  \<^verbatim>\<open>could not recv msg: \<close>, whatever the pointer in \<open>out\<close> is.
\<close>

theorem RecvAll_errors:
  "RecvAll NilInterface stream n h =
     Some (Returned (Some (New ''<nil> is not a pointer'')), n, h)
   \<and> ((\<forall>t. typeOfPtr \<noteq> TPtr t) \<longrightarrow>
        RecvAll (Iface typeOfPtr v) stream n h =
          Some (Returned (Some (New (typeName typeOfPtr @ '' is not a pointer''))), n, h))
   \<and> ((\<forall>t. typeOfSlice \<noteq> TSlice t) \<longrightarrow>
        RecvAll (Iface (TPtr typeOfSlice) v) stream n h =
          Some (Returned (Some (New (typeName (TPtr typeOfSlice) @ '' is not a slice''))), n, h))
   \<and> ((\<forall>i<length ms. stream (n + i) = Received (ms ! i))
        \<and> stream (n + length ms) = Failed err \<and> \<not> errors_Is err EOF \<longrightarrow>
        (\<exists>h'. RecvAll (Iface (TPtr (TSlice typeOfMsg)) v) stream n h =
           Some (Returned (Some (Errorf_w ''could not recv msg: '' err)), n + length ms + 1, h')))"
proof (intro conjI impI)
  show "RecvAll NilInterface stream n h =
     Some (Returned (Some (New ''<nil> is not a pointer'')), n, h)"
    by (simp add: RecvAll_def)
next
  assume "\<forall>t. typeOfPtr \<noteq> TPtr t"
  then show "RecvAll (Iface typeOfPtr v) stream n h =
          Some (Returned (Some (New (typeName typeOfPtr @ '' is not a pointer''))), n, h)"
    by (cases typeOfPtr) (simp_all add: RecvAll_def)
next
  assume "\<forall>t. typeOfSlice \<noteq> TSlice t"
  then show "RecvAll (Iface (TPtr typeOfSlice) v) stream n h =
          Some (Returned (Some (New (typeName (TPtr typeOfSlice) @ '' is not a slice''))), n, h)"
    by (cases typeOfSlice) (simp_all add: RecvAll_def)
next
  assume a: "(\<forall>i<length ms. stream (n + i) = Received (ms ! i))
        \<and> stream (n + length ms) = Failed err \<and> \<not> errors_Is err EOF"
  then obtain vs ext where
    "recvLoop stream n typeOfMsg [] h =
       Some (Inl (Errorf_w ''could not recv msg: '' err), n + length ms + 1, h @ ext)"
    using recvLoop_messages [of ms stream n err typeOfMsg "[]" h] by auto
  then show "\<exists>h'. RecvAll (Iface (TPtr (TSlice typeOfMsg)) v) stream n h =
           Some (Returned (Some (Errorf_w ''could not recv msg: '' err)), n + length ms + 1, h')"
    by (simp add: RecvAll_def)
qed

text \<open>
  C10. When the handler returns an error, every cell the memory had before the call
  holds what it held, the slice \<open>out\<close> points to among them: the call has only added
  cells. A cell that existed before the call has changed only when the handler has
  returned nil, and then it is the cell \<open>out\<close> points to.
\<close>

theorem RecvAll_error_leaves_memory:
  assumes "RecvAll out stream n h = Some (res, n', h')"
  shows "(\<forall>err. res = Returned (Some err) \<longrightarrow> take (length h) h' = h)
       \<and> (\<forall>b<length h. h' ! b \<noteq> h ! b \<longrightarrow>
            res = Returned None \<and> (\<exists>t. out = Iface (TPtr (TSlice t)) (Pointer (Some b))))"
proof (cases "\<exists>t p. out = Iface (TPtr (TSlice t)) p")
  case False
  then have "h' = h \<and> (\<exists>err. res = Returned (Some err))"
    using assms
    by (auto simp: RecvAll_def split: iface.splits ty.splits)
  then show ?thesis by auto
next
  case True
  then obtain t p where out: "out = Iface (TPtr (TSlice t)) p" by blast
  from assms out obtain r n1 h1 where
    l: "recvLoop stream n t [] h = Some (r, n1, h1)"
    by (auto simp: RecvAll_def split: option.splits)
  then obtain ext where h1: "h1 = h @ ext" using recvLoop_extends by blast
  show ?thesis
  proof (cases r)
    case (Inl err)
    with assms out l h1 have "h' = h @ ext" "res = Returned (Some err)"
      by (simp_all add: RecvAll_def)
    then show ?thesis by (simp add: nth_append)
  next
    case (Inr vs)
    show ?thesis
    proof (cases "\<exists>a. p = Pointer (Some a)")
      case True
      then obtain a where p: "p = Pointer (Some a)" by blast
      with assms out l h1 Inr have hh: "h' = (h @ ext)[a := SliceOf vs]" and res: "res = Returned None"
        by (simp_all add: RecvAll_def)
      have "h' ! b = h ! b" if "b < length h" and "a \<noteq> b" for b
        using that by (simp add: hh nth_append)
      then show ?thesis using res out p by auto
    next
      case False
      with assms out l h1 Inr have "h' = h @ ext" "\<exists>pn. res = Panicked pn"
        by (auto simp: RecvAll_def split: gval.splits option.splits)
      then show ?thesis by (auto simp: nth_append)
    qed
  qed
qed

subsection \<open>Concrete runs\<close>

lemmas RecvAll_run_defs =
  RecvAll_def recvLoop.simps appendMessage_def reflect_New_def

theorem RecvAll_collects_witness:
  "(\<lambda>i. if i < 3 then Received (10 + i) else Failed EOF) (0 :: nat) = Received (10 :: nat)
   \<and> (\<lambda>i. if i < 3 then Received (10 + i) else Failed EOF) (1 :: nat) = Received (11 :: nat)
   \<and> (\<lambda>i. if i < 3 then Received (10 + i) else Failed EOF) (2 :: nat) = Received (12 :: nat)
   \<and> (\<lambda>i. if i < 3 then Received (10 + i) else Failed EOF) (3 :: nat) = (Failed EOF :: nat recv)
   \<and> errors_Is EOF EOF
   \<and> (0 :: nat) < length [SliceOf [] :: nat gval]
   \<and> RecvAll (Iface (TPtr (TSlice (TPtr (TPtr (TBase ''pb.Item''))))) (Pointer (Some 0)))
        (\<lambda>i. if i < 3 then Received (10 + i) else Failed EOF) 0 [SliceOf []] =
      Some (Returned None, 4,
        [SliceOf [Pointer (Some 2), Pointer (Some 5), Pointer (Some 8)],
         Message 10, Pointer (Some 3), Message 10,
         Message 11, Pointer (Some 6), Message 11,
         Message 12, Pointer (Some 9), Message 12,
         ZeroValue])
   \<and> (\<exists>h' vs. RecvAll (Iface (TPtr (TSlice (TPtr (TPtr (TBase ''pb.Item''))))) (Pointer (Some 0)))
        (\<lambda>i. if i < 3 then Received (10 + i) else Failed EOF) 0 [SliceOf [] :: nat gval] =
          Some (Returned None, 4, h')
        \<and> h' ! 0 = SliceOf vs \<and> length vs = 3)"
proof -
  let ?s = "(\<lambda>i. if i < 3 then Received (10 + i) else Failed EOF) :: nat stream"
  let ?ms = "[10, 11, 12 :: nat]"
  let ?h = "[SliceOf [] :: nat gval]"
  have a: "\<forall>i<length ?ms. ?s (0 + i) = Received (?ms ! i)"
    by (auto simp: less_Suc_eq numeral_3_eq_3)
  have b: "?s (0 + length ?ms) = Failed EOF" by simp
  have c: "errors_Is EOF EOF" by simp
  have d: "0 < length ?h" by simp
  have "\<exists>h' vs. RecvAll (Iface (TPtr (TSlice (TPtr (TPtr (TBase ''pb.Item''))))) (Pointer (Some 0)))
        ?s 0 ?h = Some (Returned None, 4, h') \<and> h' ! 0 = SliceOf vs \<and> length vs = 3"
    using RecvAll_collects [OF a b c d, of "TPtr (TPtr (TBase ''pb.Item''))"] by auto
  moreover have "RecvAll (Iface (TPtr (TSlice (TPtr (TPtr (TBase ''pb.Item''))))) (Pointer (Some 0)))
        ?s 0 ?h =
      Some (Returned None, 4,
        [SliceOf [Pointer (Some 2), Pointer (Some 5), Pointer (Some 8)],
         Message 10, Pointer (Some 3), Message 10,
         Message 11, Pointer (Some 6), Message 11,
         Message 12, Pointer (Some 9), Message 12,
         ZeroValue])"
    by (simp add: RecvAll_run_defs)
  ultimately show ?thesis by simp
qed

text \<open>
  C5 as stated fails on the text of the wrapped error: the code wraps with
  \<^verbatim>\<open>could not recv msg: \<close>, not with \<^verbatim>\<open>could not receive message\<close>. And among the values
  of \<open>out\<close> that are nil, the nil pointer to a slice passes both checks: the handler
  reads the stream to its end and then panics in \<^verbatim>\<open>Set\<close>.
\<close>

theorem RecvAll_errors_counterexample:
  "RecvAll (Iface (TPtr (TSlice (TBase ''pb.Item''))) (Pointer (Some 0)))
      (\<lambda>i. Failed (New ''boom'') :: nat recv) 0 [SliceOf []] =
     Some (Returned (Some (Errorf_w ''could not recv msg: '' (New ''boom''))), 1,
           [SliceOf [], ZeroValue])
   \<and> Errorf_w ''could not recv msg: '' (New ''boom'') \<noteq>
       Errorf_w ''could not receive message: '' (New ''boom'')
   \<and> RecvAll (Iface (TPtr (TSlice (TBase ''pb.Item''))) (Pointer None))
      (\<lambda>i. Failed EOF :: nat recv) 0 [] =
     Some (Panicked (Panic ''reflect: call of reflect.Value.Set on zero Value''), 1, [ZeroValue])"
  by (simp add: RecvAll_run_defs)

theorem RecvAll_errors_witness:
  "RecvAll (Iface (TSlice (TBase ''pb.Item'')) (SliceOf [])) (\<lambda>i. Failed EOF :: nat recv) 0 [] =
     Some (Returned (Some (New ''[]pb.Item is not a pointer'')), 0, [])
   \<and> RecvAll (Iface (TPtr (TBase ''int'')) (Pointer (Some 0))) (\<lambda>i. Failed EOF :: nat recv) 0
       [ZeroValue] =
     Some (Returned (Some (New ''*int is not a slice'')), 0, [ZeroValue])
   \<and> (\<lambda>i. if i < 1 then Received 10 else Failed (New ''boom'')) (0 :: nat) = Received (10 :: nat)
   \<and> (\<lambda>i. if i < 1 then Received 10 else Failed (New ''boom'')) (1 :: nat) =
       (Failed (New ''boom'') :: nat recv)
   \<and> \<not> errors_Is (New ''boom'') EOF
   \<and> (\<exists>h'. RecvAll (Iface (TPtr (TSlice (TBase ''pb.Item''))) (Pointer (Some 0)))
        (\<lambda>i. if i < 1 then Received 10 else Failed (New ''boom'')) 0 [SliceOf [] :: nat gval] =
      Some (Returned (Some (Errorf_w ''could not recv msg: '' (New ''boom''))), 2, h'))"
proof -
  let ?s = "(\<lambda>i. if i < 1 then Received 10 else Failed (New ''boom'')) :: nat stream"
  let ?e = "\<lambda>i. Failed EOF :: nat recv"
  have a: "(\<forall>i<length [10 :: nat]. ?s (0 + i) = Received ([10] ! i))
        \<and> ?s (0 + length [10 :: nat]) = Failed (New ''boom'') \<and> \<not> errors_Is (New ''boom'') EOF"
    by simp
  have 1: "\<forall>t. TSlice (TBase ''pb.Item'') \<noteq> TPtr t" by simp
  have 2: "\<forall>t. TBase ''int'' \<noteq> TSlice t" by simp
  have A: "RecvAll (Iface (TSlice (TBase ''pb.Item'')) (SliceOf [])) ?e 0 [] =
     Some (Returned (Some (New ''[]pb.Item is not a pointer'')), 0, [])"
    using 1 RecvAll_errors [where stream = ?e and n = 0 and h = "[]"
        and typeOfPtr = "TSlice (TBase ''pb.Item'')" and v = "SliceOf []"
        and typeOfSlice = "TBase ''int''" and ms = "[]" and err = EOF
        and typeOfMsg = "TBase ''int''"]
    by simp
  have B: "RecvAll (Iface (TPtr (TBase ''int'')) (Pointer (Some 0))) ?e 0 [ZeroValue] =
     Some (Returned (Some (New ''*int is not a slice'')), 0, [ZeroValue])"
    using 2 RecvAll_errors [where stream = ?e and n = 0 and h = "[ZeroValue]"
        and typeOfPtr = "TBase ''int''" and v = "Pointer (Some 0)"
        and typeOfSlice = "TBase ''int''" and ms = "[]" and err = EOF
        and typeOfMsg = "TBase ''int''"]
    by simp
  have C: "\<exists>h'. RecvAll (Iface (TPtr (TSlice (TBase ''pb.Item''))) (Pointer (Some 0)))
        ?s 0 [SliceOf [] :: nat gval] =
      Some (Returned (Some (Errorf_w ''could not recv msg: '' (New ''boom''))), 2, h')"
    using a RecvAll_errors [where stream = ?s and n = 0 and h = "[SliceOf []]"
        and typeOfPtr = "TBase ''int''" and v = "Pointer (Some 0)"
        and typeOfSlice = "TBase ''int''" and ms = "[10]" and err = "New ''boom''"
        and typeOfMsg = "TBase ''pb.Item''"]
    by (simp add: numeral_2_eq_2)
  from A B C show ?thesis by simp
qed

theorem RecvAll_error_leaves_memory_witness:
  "RecvAll (Iface (TPtr (TSlice (TPtr (TBase ''pb.Item'')))) (Pointer (Some 0)))
      (\<lambda>i. if i < 1 then Received 10 else Failed (New ''boom'')) 0
      [SliceOf [Pointer (Some 1)], Message (7 :: nat)] =
     Some (Returned (Some (Errorf_w ''could not recv msg: '' (New ''boom''))), 2,
       [SliceOf [Pointer (Some 1)], Message 7, Message 10, Message 10, ZeroValue])
   \<and> take (length [SliceOf [Pointer (Some 1)], Message (7 :: nat)])
        [SliceOf [Pointer (Some 1)], Message 7, Message 10, Message 10, ZeroValue] =
      [SliceOf [Pointer (Some 1)], Message (7 :: nat)]"
proof -
  have r: "RecvAll (Iface (TPtr (TSlice (TPtr (TBase ''pb.Item'')))) (Pointer (Some 0)))
      (\<lambda>i. if i < 1 then Received 10 else Failed (New ''boom'')) 0
      [SliceOf [Pointer (Some 1)], Message (7 :: nat)] =
     Some (Returned (Some (Errorf_w ''could not recv msg: '' (New ''boom''))), 2,
       [SliceOf [Pointer (Some 1)], Message 7, Message 10, Message 10, ZeroValue])"
    by (simp add: RecvAll_run_defs)
  show ?thesis
    using r RecvAll_error_leaves_memory [OF r] by blast
qed

end
